theory Spec2Isabelle
  imports Complex_Main "HOL-Library.Word"
begin

text \<open>
  The histogram of \<^verbatim>\<open>histogram.h\<close>: the two binning schemes, their composition into a
  histogram of fixed rank, and \<^verbatim>\<open>fill\<close>. Each class is a record, each member function a
  function on it, each constructor a function that returns the record; a call that can
  throw, fail an assertion or run into undefined behaviour returns a sum whose left side
  is the failure. The variadic templates are recursions over the list of dimensions.
\<close>

section \<open>Values of the program\<close>

subsection \<open>Doubles\<close>

text \<open>
  A \<^verbatim>\<open>double\<close> is a not-a-number, one of the two infinities, or a finite value.
  Comparisons and the arithmetic of the special values follow IEEE 754 (every comparison
  with a NaN is false, \<open>inf - inf\<close>, \<open>inf * 0\<close>, \<open>0 / 0\<close> and \<open>inf / inf\<close> are NaN). A
  finite result overflows to the infinity of its sign as rounding to nearest does, when
  its magnitude is at least \<open>2^1024 - 2^970\<close>. Below that, the arithmetic of finite values
  is the arithmetic of the reals: rounding to 53 bits and the sign of zero are not part
  of this model, so the statements below either leave the arithmetic of finite values
  symbolic or evaluate it where the doubles compute exactly.
\<close>

datatype double = NaN | NInf | Fin real | PInf

definition isnan :: "double \<Rightarrow> bool" where
  "isnan d = (d = NaN)"

text \<open>\<^verbatim>\<open>a < b\<close>\<close>

fun dlt :: "double \<Rightarrow> double \<Rightarrow> bool" where
  "dlt NInf (Fin b) = True"
| "dlt NInf PInf = True"
| "dlt (Fin a) (Fin b) = (a < b)"
| "dlt (Fin a) PInf = True"
| "dlt _ _ = False"

text \<open>\<^verbatim>\<open>a > b\<close>, \<^verbatim>\<open>a <= b\<close> and \<^verbatim>\<open>a >= b\<close>\<close>

definition dgt :: "double \<Rightarrow> double \<Rightarrow> bool" where
  "dgt a b = dlt b a"

definition dle :: "double \<Rightarrow> double \<Rightarrow> bool" where
  "dle a b = (dlt a b \<or> (a = b \<and> a \<noteq> NaN))"

definition dge :: "double \<Rightarrow> double \<Rightarrow> bool" where
  "dge a b = dle b a"

text \<open>The finite result \<open>x\<close> of an operation, as a double.\<close>

definition overflow :: "real \<Rightarrow> double" where
  "overflow x =
     (if (2 ^ 54 - 1) * 2 ^ 970 \<le> x then PInf
      else if x \<le> - ((2 ^ 54 - 1) * 2 ^ 970) then NInf
      else Fin x)"

fun dneg :: "double \<Rightarrow> double" where
  "dneg NaN = NaN"
| "dneg NInf = PInf"
| "dneg (Fin a) = Fin (- a)"
| "dneg PInf = NInf"

fun dadd :: "double \<Rightarrow> double \<Rightarrow> double" where
  "dadd NaN _ = NaN"
| "dadd _ NaN = NaN"
| "dadd (Fin a) (Fin b) = overflow (a + b)"
| "dadd PInf NInf = NaN"
| "dadd NInf PInf = NaN"
| "dadd PInf _ = PInf"
| "dadd _ PInf = PInf"
| "dadd NInf _ = NInf"
| "dadd _ NInf = NInf"

definition dsub :: "double \<Rightarrow> double \<Rightarrow> double" where
  "dsub a b = dadd a (dneg b)"

text \<open>The infinity that has the sign of a non-zero real.\<close>

definition inf_signed :: "real \<Rightarrow> double" where
  "inf_signed s = (if 0 < s then PInf else NInf)"

fun dmul :: "double \<Rightarrow> double \<Rightarrow> double" where
  "dmul NaN _ = NaN"
| "dmul _ NaN = NaN"
| "dmul (Fin a) (Fin b) = overflow (a * b)"
| "dmul PInf (Fin b) = (if b = 0 then NaN else inf_signed b)"
| "dmul NInf (Fin b) = (if b = 0 then NaN else inf_signed (- b))"
| "dmul (Fin a) PInf = (if a = 0 then NaN else inf_signed a)"
| "dmul (Fin a) NInf = (if a = 0 then NaN else inf_signed (- a))"
| "dmul PInf PInf = PInf"
| "dmul NInf NInf = PInf"
| "dmul PInf NInf = NInf"
| "dmul NInf PInf = NInf"

text \<open>A finite non-zero value divided by zero is the infinity of the dividend's sign
  (the zero divisor counts as positive).\<close>

fun ddiv :: "double \<Rightarrow> double \<Rightarrow> double" where
  "ddiv NaN _ = NaN"
| "ddiv _ NaN = NaN"
| "ddiv (Fin a) (Fin b) =
     (if b = 0 then (if a = 0 then NaN else inf_signed a) else overflow (a / b))"
| "ddiv (Fin a) PInf = Fin 0"
| "ddiv (Fin a) NInf = Fin 0"
| "ddiv PInf (Fin b) = (if 0 \<le> b then PInf else NInf)"
| "ddiv NInf (Fin b) = (if 0 \<le> b then NInf else PInf)"
| "ddiv _ _ = NaN"

text \<open>\<^verbatim>\<open>std::floor\<close>\<close>

fun dfloor :: "double \<Rightarrow> double" where
  "dfloor (Fin a) = Fin (of_int \<lfloor>a\<rfloor>)"
| "dfloor d = d"

subsection \<open>Sizes\<close>

text \<open>\<^verbatim>\<open>size_t\<close> is an unsigned 64-bit integer: its arithmetic wraps around.\<close>

type_synonym size_t = "64 word"

text \<open>What can go wrong: \<^verbatim>\<open>std::out_of_range\<close> thrown by \<^verbatim>\<open>vector::at\<close>, a failed
  \<^verbatim>\<open>assert\<close>, undefined behaviour (\<^verbatim>\<open>front()\<close> of an empty vector, a conversion of a
  double that no \<^verbatim>\<open>size_t\<close> represents), and a failed \<^verbatim>\<open>static_assert\<close> on the number of
  arguments, which rejects the call at compile time.\<close>

datatype error = OutOfRange | AssertionFailed | UndefinedBehaviour | StaticAssertFailed

text \<open>\<^verbatim>\<open>vector::size()\<close>\<close>

definition vsize :: "'a list \<Rightarrow> size_t" where
  "vsize xs = word_of_nat (length xs)"

text \<open>The implicit conversion of a \<^verbatim>\<open>size_t\<close> to \<^verbatim>\<open>double\<close> rounds to nearest, ties to even. A
  size below \<open>2^53\<close> is a double. The doubles from \<open>2^(52+k)\<close> to \<open>2^(53+k)\<close> are the multiples
  of \<open>2^k\<close>, their \<open>spacing\<close>; for a size below \<open>2^64\<close>, \<open>k\<close> is at most 11.\<close>

primrec spacing :: "nat \<Rightarrow> nat \<Rightarrow> nat" where
  "spacing 0 n = 1"
| "spacing (Suc k) n = (if n < 2 ^ 53 then 1 else 2 * spacing k (n div 2))"

definition nearest_even :: "nat \<Rightarrow> nat \<Rightarrow> nat" where
  "nearest_even n q =
     (let m = n div q; r = n mod q
      in if 2 * r < q \<or> (2 * r = q \<and> even m) then m * q else (m + 1) * q)"

definition double_of_size_t :: "size_t \<Rightarrow> double" where
  "double_of_size_t n = Fin (real (nearest_even (unat n) (spacing 11 (unat n))))"

text \<open>\<^verbatim>\<open>size_t(x)\<close> for a double \<open>x\<close>: the fractional part is discarded, and the behaviour
  is undefined when no \<^verbatim>\<open>size_t\<close> holds the truncated value.\<close>

definition truncated :: "real \<Rightarrow> int" where
  "truncated a = (if 0 \<le> a then \<lfloor>a\<rfloor> else \<lceil>a\<rceil>)"

fun size_t_of_double :: "double \<Rightarrow> error + size_t" where
  "size_t_of_double (Fin a) =
     (if 0 \<le> truncated a \<and> truncated a < 2 ^ 64 then Inr (word_of_int (truncated a))
      else Inl UndefinedBehaviour)"
| "size_t_of_double _ = Inl UndefinedBehaviour"

section \<open>Binning schemes\<close>

subsection \<open>The non-equispaced scheme\<close>

text \<open>\<^verbatim>\<open>std::upper_bound\<close> of the C++ standard library, as the library writes it: a
  halving search over \<open>[first, first + len)\<close>. On a range partitioned with respect to
  \<^verbatim>\<open>value < element\<close> it returns the position of the first element greater than the
  value (lemma \<open>upper_bound_partitioned\<close> below).\<close>

function upper_bound_loop :: "double list \<Rightarrow> double \<Rightarrow> nat \<Rightarrow> nat \<Rightarrow> nat" where
  "upper_bound_loop xs v first len =
     (if len = 0 then first
      else let half = len div 2; middle = first + half
           in if dlt v (xs ! middle) then upper_bound_loop xs v first half
              else upper_bound_loop xs v (middle + 1) (len - half - 1))"
  by pat_completeness auto
termination
  by (relation "measure (\<lambda>(xs, v, first, len). len)") auto

declare upper_bound_loop.simps [simp del]

definition upper_bound :: "double list \<Rightarrow> double \<Rightarrow> nat" where
  "upper_bound xs v = upper_bound_loop xs v 0 (length xs)"

record general =
  g_name :: string
  g_edges :: "double list"

text \<open>The constructor reads \<^verbatim>\<open>edges.front()\<close> and \<^verbatim>\<open>edges.back()\<close>, which an empty vector
  does not have.\<close>

definition general_ctor :: "double list \<Rightarrow> string \<Rightarrow> error + general" where
  "general_ctor edges name =
     (if edges = [] then Inl UndefinedBehaviour
      else
        let e1 = (if dgt (hd edges) NInf then [NInf] else []);
            e2 = e1 @ edges;
            e3 = (if dlt (last edges) PInf then e2 @ [PInf] else e2)
        in Inr \<lparr>g_name = name, g_edges = e3\<rparr>)"

definition general_nbins :: "general \<Rightarrow> size_t" where
  "general_nbins g = vsize (g_edges g) - 1"

definition general_index :: "general \<Rightarrow> double \<Rightarrow> error + size_t" where
  "general_index g v =
     (let j = upper_bound (g_edges g) v
      in if 0 < j then Inr (word_of_nat (j - 1)) else Inl AssertionFailed)"

subsection \<open>Transformations\<close>

text \<open>A transformation is the pair of the static functions \<^verbatim>\<open>map\<close> and \<^verbatim>\<open>imap\<close> of the
  template argument of \<^verbatim>\<open>uniform\<close>.\<close>

record transformation =
  tmap :: "double \<Rightarrow> double"
  timap :: "double \<Rightarrow> double"

text \<open>\<^verbatim>\<open>detail::identity\<close>\<close>

definition identity :: transformation where
  "identity = \<lparr>tmap = (\<lambda>v. v), timap = (\<lambda>v. v)\<rparr>"

text \<open>The other transformations of the catalogue (\<^verbatim>\<open>log10\<close>, \<^verbatim>\<open>cosine\<close>, \<^verbatim>\<open>power<N>\<close>) call the
  mathematical library; every statement below about the equispaced scheme holds for an
  arbitrary pair of functions.\<close>

subsection \<open>The equispaced scheme\<close>

text \<open>The members \<^verbatim>\<open>offset_\<close>, \<^verbatim>\<open>range_\<close>, \<^verbatim>\<open>min_\<close>, \<^verbatim>\<open>max_\<close> and \<^verbatim>\<open>nsteps_\<close> are the
  fields \<open>u_offset\<close>, \<open>u_range\<close>, \<open>u_min\<close>, \<open>u_max\<close> and \<open>u_nsteps\<close>; the template argument
  is the field \<open>u_trans\<close>.\<close>

record uniform =
  u_trans :: transformation
  u_edges :: "double list"
  u_name :: string
  u_offset :: double
  u_range :: double
  u_min :: double
  u_max :: double
  u_nsteps :: size_t

text \<open>The private members \<^verbatim>\<open>map\<close> and \<^verbatim>\<open>imap\<close> read \<^verbatim>\<open>offset_\<close> and \<^verbatim>\<open>range_\<close> only.\<close>

definition uniform_map :: "transformation \<Rightarrow> double \<Rightarrow> double \<Rightarrow> double \<Rightarrow> double" where
  "uniform_map T offset rng v = tmap T (dadd (dmul rng v) offset)"

definition uniform_imap :: "transformation \<Rightarrow> double \<Rightarrow> double \<Rightarrow> double \<Rightarrow> double" where
  "uniform_imap T offset rng v = ddiv (dsub (timap T v) offset) rng"

text \<open>The loop of the constructor,
  \<^verbatim>\<open>for (size_t i = 0; i < nsteps_; i++) edges_.push_back(map(i/double(nsteps_-1)))\<close>.
  The counter stays below \<^verbatim>\<open>nsteps_\<close>, so its increment never wraps. \<^verbatim>\<open>reserve\<close> changes no
  element; that the memory for the edges may be missing is not modelled.\<close>

function push_edges ::
  "transformation \<Rightarrow> double \<Rightarrow> double \<Rightarrow> size_t \<Rightarrow> nat \<Rightarrow> double list \<Rightarrow> double list" where
  "push_edges T offset rng nsteps i edges =
     (if i < unat nsteps
      then push_edges T offset rng nsteps (i + 1)
             (edges @ [uniform_map T offset rng
                         (ddiv (double_of_size_t (word_of_nat i)) (double_of_size_t (nsteps - 1)))])
      else edges)"
  by pat_completeness auto
termination
  by (relation "measure (\<lambda>(T, offset, rng, nsteps, i, edges). unat nsteps - i)") auto

declare push_edges.simps [simp del]

definition uniform_ctor ::
  "transformation \<Rightarrow> double \<Rightarrow> double \<Rightarrow> size_t \<Rightarrow> string \<Rightarrow> uniform" where
  "uniform_ctor T low high nbins name =
     (let offset = timap T low;
          rng = dsub (timap T high) (timap T low);
          nsteps = nbins + 1;
          edges = push_edges T offset rng nsteps 0 [NInf] @ [PInf]
      in \<lparr>u_trans = T, u_edges = edges, u_name = name,
          u_offset = offset, u_range = rng,
          u_min = uniform_map T offset rng (Fin 0),
          u_max = uniform_map T offset rng (Fin 1),
          u_nsteps = nsteps\<rparr>)"

definition uniform_nbins :: "uniform \<Rightarrow> size_t" where
  "uniform_nbins u = u_nsteps u + 1"

definition uniform_index :: "uniform \<Rightarrow> double \<Rightarrow> error + size_t" where
  "uniform_index u v =
     (if dlt v (u_min u) then Inr 0
      else if dge v (u_max u) then Inr (vsize (u_edges u) - 2)
      else
        (case size_t_of_double
                (dfloor (dmul (double_of_size_t (u_nsteps u - 1))
                   (uniform_imap (u_trans u) (u_offset u) (u_range u) v))) of
           Inl e \<Rightarrow> Inl e
         | Inr k \<Rightarrow> Inr (k + 1)))"

section \<open>Histograms\<close>

text \<open>A dimension of a histogram is a scheme of either class.\<close>

datatype dimension = General general | Uniform uniform

fun nbins :: "dimension \<Rightarrow> size_t" where
  "nbins (General g) = general_nbins g"
| "nbins (Uniform u) = uniform_nbins u"

fun edges :: "dimension \<Rightarrow> double list" where
  "edges (General g) = g_edges g"
| "edges (Uniform u) = u_edges u"

fun name :: "dimension \<Rightarrow> string" where
  "name (General g) = g_name g"
| "name (Uniform u) = u_name u"

fun dim_index :: "dimension \<Rightarrow> double \<Rightarrow> error + size_t" where
  "dim_index (General g) v = general_index g v"
| "dim_index (Uniform u) v = uniform_index u v"

subsection \<open>The recursion over the dimensions\<close>

text \<open>\<^verbatim>\<open>histogram_impl<T, Ts...>\<close> holds the first dimension and inherits the others; the
  empty list is the end of the recursion.\<close>

definition extent :: "dimension \<Rightarrow> size_t" where
  "extent d = nbins d"

fun size_impl :: "dimension list \<Rightarrow> size_t" where
  "size_impl [] = 1"
| "size_impl (d # ds) = extent d * size_impl ds"

fun stride :: "dimension list \<Rightarrow> size_t" where
  "stride [] = 1"
| "stride (d # ds) = size_impl ds"

fun valid :: "double list \<Rightarrow> bool" where
  "valid [] = True"
| "valid (v # tail) = (\<not> isnan v \<and> valid tail)"

text \<open>\<^verbatim>\<open>index\<close> asserts statically that it has one argument for each dimension.\<close>

fun index_impl :: "dimension list \<Rightarrow> double list \<Rightarrow> error + size_t" where
  "index_impl [] [] = Inr 0"
| "index_impl (d # ds) (v # tail) =
     (case dim_index d v of
        Inl e \<Rightarrow> Inl e
      | Inr i \<Rightarrow>
          (case index_impl ds tail of
             Inl e \<Rightarrow> Inl e
           | Inr r \<Rightarrow> Inr (i * stride (d # ds) + r)))"
| "index_impl _ _ = Inl StaticAssertFailed"

fun fill_shape :: "dimension list \<Rightarrow> size_t list" where
  "fill_shape [] = []"
| "fill_shape (d # ds) = extent d # fill_shape ds"

fun fill_edges :: "dimension list \<Rightarrow> double list list" where
  "fill_edges [] = []"
| "fill_edges (d # ds) = edges d # fill_edges ds"

fun fill_label :: "dimension list \<Rightarrow> string list" where
  "fill_label [] = []"
| "fill_label (d # ds) = name d # fill_label ds"

subsection \<open>The histogram\<close>

record histogram =
  dims :: "dimension list"
  h_title :: string
  h_n_entries :: size_t
  h_bincontent :: "double list"
  h_squaredweights :: "double list"

text \<open>The constructor of \<^verbatim>\<open>histogram\<close>. The two vectors are allocated with \<^verbatim>\<open>size()\<close> zeros;
  when the allocation throws (\<^verbatim>\<open>std::length_error\<close>, \<^verbatim>\<open>std::bad_alloc\<close>) there is no histogram,
  and \<open>histogram_ctor\<close> is the histogram of a constructor that returned.\<close>

definition histogram_ctor :: "dimension list \<Rightarrow> string \<Rightarrow> histogram" where
  "histogram_ctor ds title =
     \<lparr>dims = ds, h_title = title, h_n_entries = 0,
      h_bincontent = replicate (unat (size_impl ds)) (Fin 0),
      h_squaredweights = replicate (unat (size_impl ds)) (Fin 0)\<rparr>"

definition shape :: "histogram \<Rightarrow> size_t list" where
  "shape h = fill_shape (dims h)"

definition binedges :: "histogram \<Rightarrow> double list list" where
  "binedges h = fill_edges (dims h)"

definition labels :: "histogram \<Rightarrow> string list" where
  "labels h = fill_label (dims h)"

definition n_entries :: "histogram \<Rightarrow> size_t" where
  "n_entries h = h_n_entries h"

text \<open>\<^verbatim>\<open>fill_with_weight\<close> returns the outcome of the call (the boolean it returns, or the
  failure that ends it) and the histogram the call leaves behind. \<^verbatim>\<open>vector::at\<close> throws
  when the offset is not below the size of the vector; what was written before it threw
  stays written.\<close>

definition fill_with_weight ::
  "histogram \<Rightarrow> double \<Rightarrow> double list \<Rightarrow> (error + bool) \<times> histogram" where
  "fill_with_weight h weight args =
     (if length args \<noteq> length (dims h) then (Inl StaticAssertFailed, h)
      else if valid args then
        (case index_impl (dims h) args of
           Inl e \<Rightarrow> (Inl e, h)
         | Inr offset \<Rightarrow>
             if length (h_bincontent h) \<le> unat offset then (Inl OutOfRange, h)
             else
               let h1 = h\<lparr>h_bincontent := (h_bincontent h)
                           [unat offset := dadd (h_bincontent h ! unat offset) weight]\<rparr>
               in if length (h_squaredweights h1) \<le> unat offset then (Inl OutOfRange, h1)
                  else
                    let h2 = h1\<lparr>h_squaredweights := (h_squaredweights h1)
                                 [unat offset :=
                                    dadd (h_squaredweights h1 ! unat offset) (dmul weight weight)]\<rparr>
                    in (Inr True, h2\<lparr>h_n_entries := h_n_entries h2 + 1\<rparr>))
      else (Inr False, h))"

definition fill :: "histogram \<Rightarrow> double list \<Rightarrow> (error + bool) \<times> histogram" where
  "fill h args = fill_with_weight h (Fin 1) args"

section \<open>The demonstration program\<close>

text \<open>\<^verbatim>\<open>main\<close> of the demonstration builds \<^verbatim>\<open>linear(0, 10, 11, "dimension")\<close> and
  \<^verbatim>\<open>general({0, 1, 2}, "general")\<close>; \<^verbatim>\<open>linear\<close> is \<^verbatim>\<open>uniform<detail::identity>\<close>. The second
  scheme is written with the fields its constructor gives it (lemma \<open>demo_dim1_ctor\<close>).\<close>

definition demo_dim :: uniform where
  "demo_dim = uniform_ctor identity (Fin 0) (Fin 10) 11 ''dimension''"

definition demo_dim1 :: general where
  "demo_dim1 = \<lparr>g_name = ''general'', g_edges = [NInf, Fin 0, Fin 1, Fin 2, PInf]\<rparr>"

section \<open>Notions of the specification\<close>

text \<open>A finite double.\<close>

fun is_finite :: "double \<Rightarrow> bool" where
  "is_finite (Fin a) = True"
| "is_finite _ = False"

text \<open>The scaled position that \<^verbatim>\<open>uniform::index\<close> computes in its last branch,
  \<^verbatim>\<open>std::floor((nsteps_-1)*imap(value))\<close>.\<close>

definition position :: "uniform \<Rightarrow> double \<Rightarrow> double" where
  "position u v =
     dfloor (dmul (double_of_size_t (u_nsteps u - 1))
       (uniform_imap (u_trans u) (u_offset u) (u_range u) v))"


text \<open>The histogram holds what its constructor allocated: both arrays have \<^verbatim>\<open>size()\<close>
  elements. No member function changes their lengths.\<close>

definition allocated :: "histogram \<Rightarrow> bool" where
  "allocated h =
     (length (h_bincontent h) = unat (size_impl (dims h)) \<and>
      length (h_squaredweights h) = unat (size_impl (dims h)))"

section \<open>Comparisons and sizes\<close>

lemma dlt_trans: "dlt a b \<Longrightarrow> dlt b c \<Longrightarrow> dlt a c"
  by (cases a; cases b; cases c) auto

lemma dlt_not_nan: "dlt a b \<Longrightarrow> \<not> isnan a \<and> \<not> isnan b"
  by (cases a; cases b) (auto simp: isnan_def)

lemma not_dlt_dle: "\<not> isnan a \<Longrightarrow> \<not> isnan b \<Longrightarrow> \<not> dlt a b \<Longrightarrow> dle b a"
  by (cases a; cases b) (auto simp: isnan_def dle_def)

lemma dlt_NInf_iff: "dlt NInf v \<longleftrightarrow> v \<noteq> NaN \<and> v \<noteq> NInf"
  by (cases v) auto

lemma dlt_PInf_iff: "dlt v PInf \<longleftrightarrow> v \<noteq> NaN \<and> v \<noteq> PInf"
  by (cases v) auto

lemma not_dlt_NInf [simp]: "\<not> dlt v NInf"
  by (cases v) auto

lemma not_dlt_PInf [simp]: "\<not> dlt PInf v"
  by (cases v) auto

lemma not_dlt_NaN [simp]: "\<not> dlt v NaN" "\<not> dlt NaN v"
  by (cases v; simp)+

text \<open>A result of small magnitude does not overflow.\<close>

lemma overflow_small [simp]: "\<bar>x\<bar> \<le> 2 ^ 64 \<Longrightarrow> overflow x = Fin x"
proof -
  assume "\<bar>x\<bar> \<le> 2 ^ 64"
  moreover have "(2 :: real) ^ 64 < (2 ^ 54 - 1) * 2 ^ 970" by simp
  ultimately have "x < (2 ^ 54 - 1) * 2 ^ 970" and "- ((2 ^ 54 - 1) * 2 ^ 970) < x"
    by linarith+
  then show ?thesis by (simp add: overflow_def)
qed

lemma spacing_small: "n < 2 ^ 53 \<Longrightarrow> spacing k n = 1"
  by (cases k) simp_all

lemma double_of_size_t_small: "unat n < 2 ^ 53 \<Longrightarrow> double_of_size_t n = Fin (real (unat n))"
  by (simp add: double_of_size_t_def spacing_small nearest_even_def)

lemma unat_of_nat_size_t: "n < 2 ^ 64 \<Longrightarrow> unat (word_of_nat n :: size_t) = n"
  by (simp add: unat_of_nat)

section \<open>The binary search\<close>

lemma upper_bound_loop_0 [simp]: "upper_bound_loop xs v first 0 = first"
  by (simp add: upper_bound_loop.simps)

lemma upper_bound_loop_step:
  "0 < len \<Longrightarrow> upper_bound_loop xs v first len =
     (if dlt v (xs ! (first + len div 2)) then upper_bound_loop xs v first (len div 2)
      else upper_bound_loop xs v (first + len div 2 + 1) (len - len div 2 - 1))"
  by (subst upper_bound_loop.simps) (simp add: Let_def)

lemma upper_bound_loop_range:
  "first \<le> upper_bound_loop xs v first len \<and> upper_bound_loop xs v first len \<le> first + len"
proof (induction xs v first len rule: upper_bound_loop.induct)
  case (1 xs v first len)
  show ?case
  proof (cases "len = 0")
    case True
    then show ?thesis by simp
  next
    case False
    then have pos: "0 < len" by simp
    let ?m = "first + len div 2"
    show ?thesis
    proof (cases "dlt v (xs ! ?m)")
      case True
      have eq: "upper_bound_loop xs v first len = upper_bound_loop xs v first (len div 2)"
        using True pos by (simp add: upper_bound_loop_step)
      from 1(1) [OF False refl refl True] show ?thesis
        unfolding eq by linarith
    next
      case nlt: False
      have eq: "upper_bound_loop xs v first len =
                  upper_bound_loop xs v (?m + 1) (len - len div 2 - 1)"
        using nlt pos by (simp add: upper_bound_loop_step)
      from 1(2) [OF False refl refl nlt] pos show ?thesis
        unfolding eq by linarith
    qed
  qed
qed

text \<open>Whatever the order of the elements, the search stops between an element that is
  not above the value and one that is.\<close>

lemma upper_bound_loop_local:
  "(upper_bound_loop xs v first len = first \<or>
      \<not> dlt v (xs ! (upper_bound_loop xs v first len - 1))) \<and>
   (upper_bound_loop xs v first len = first + len \<or>
      dlt v (xs ! upper_bound_loop xs v first len))"
proof (induction xs v first len rule: upper_bound_loop.induct)
  case (1 xs v first len)
  show ?case
  proof (cases "len = 0")
    case True
    then show ?thesis by simp
  next
    case False
    then have pos: "0 < len" by simp
    let ?m = "first + len div 2"
    show ?thesis
    proof (cases "dlt v (xs ! ?m)")
      case True
      have eq: "upper_bound_loop xs v first len = upper_bound_loop xs v first (len div 2)"
        using True pos by (simp add: upper_bound_loop_step)
      from 1(1) [OF False refl refl True] True show ?thesis
        unfolding eq by auto
    next
      case nlt: False
      have eq: "upper_bound_loop xs v first len =
                  upper_bound_loop xs v (?m + 1) (len - len div 2 - 1)"
        using nlt pos by (simp add: upper_bound_loop_step)
      have sum: "?m + 1 + (len - len div 2 - 1) = first + len"
        using pos by simp
      from 1(2) [OF False refl refl nlt] nlt show ?thesis
        unfolding eq sum by auto
    qed
  qed
qed

lemma upper_bound_loop_partitioned:
  assumes "\<forall>i<k. \<not> dlt v (xs ! i)" and "\<forall>i. k \<le> i \<and> i < length xs \<longrightarrow> dlt v (xs ! i)"
    and "first \<le> k" and "k \<le> first + len" and "first + len \<le> length xs"
  shows "upper_bound_loop xs v first len = k"
  using assms
proof (induction xs v first len rule: upper_bound_loop.induct)
  case (1 xs v first len)
  show ?case
  proof (cases "len = 0")
    case True
    with 1(5,6) show ?thesis by simp
  next
    case False
    then have pos: "0 < len" by simp
    let ?m = "first + len div 2"
    have m_lt: "?m < length xs" using pos 1(7) by simp
    show ?thesis
    proof (cases "dlt v (xs ! ?m)")
      case True
      have eq: "upper_bound_loop xs v first len = upper_bound_loop xs v first (len div 2)"
        using True pos by (simp add: upper_bound_loop_step)
      have "\<not> ?m < k" using 1(3) True by blast
      then have le: "k \<le> ?m" by simp
      have "first + len div 2 \<le> length xs" using m_lt by simp
      from 1(1) [OF False refl refl True 1(3) 1(4) 1(5) le this] show ?thesis
        unfolding eq .
    next
      case nlt: False
      have eq: "upper_bound_loop xs v first len =
                  upper_bound_loop xs v (?m + 1) (len - len div 2 - 1)"
        using nlt pos by (simp add: upper_bound_loop_step)
      have "\<not> k \<le> ?m" using 1(4) m_lt nlt by blast
      then have lt: "?m + 1 \<le> k" by simp
      have sum: "?m + 1 + (len - len div 2 - 1) = first + len"
        using pos by simp
      have a: "k \<le> ?m + 1 + (len - len div 2 - 1)" using 1(6) sum by simp
      have b: "?m + 1 + (len - len div 2 - 1) \<le> length xs" using 1(7) sum by simp
      from 1(2) [OF False refl refl nlt 1(3) 1(4) lt a b] show ?thesis
        unfolding eq .
    qed
  qed
qed

lemma upper_bound_partitioned:
  assumes "k \<le> length xs" and "\<forall>i<k. \<not> dlt v (xs ! i)"
    and "\<forall>i. k \<le> i \<and> i < length xs \<longrightarrow> dlt v (xs ! i)"
  shows "upper_bound xs v = k"
  unfolding upper_bound_def
  by (rule upper_bound_loop_partitioned [OF assms(2) assms(3)]) (use assms(1) in simp_all)

lemma upper_bound_PInf: "upper_bound xs PInf = length xs"
proof -
  have "upper_bound xs PInf = 0 + length xs \<or> dlt PInf (xs ! upper_bound xs PInf)"
    unfolding upper_bound_def using upper_bound_loop_local [of xs PInf 0 "length xs"] by blast
  then show ?thesis by simp
qed

section \<open>The index of the non-equispaced scheme\<close>

text \<open>The edges a constructed scheme holds: they are not empty, the first one is minus
  infinity or a NaN, and the last one is plus infinity or a NaN.\<close>

lemma general_ctor_edges:
  assumes "general_ctor es nm = Inr g"
  shows "g_edges g \<noteq> []"
    and "hd (g_edges g) = NInf \<or> hd (g_edges g) = NaN"
    and "last (g_edges g) = PInf \<or> last (g_edges g) = NaN"
    and "set (g_edges g) \<subseteq> set es \<union> {NInf, PInf}"
    and "length es \<le> length (g_edges g)" and "length (g_edges g) \<le> length es + 2"
proof -
  from assms have ne: "es \<noteq> []"
    by (auto simp: general_ctor_def split: if_splits)
  from assms ne have E: "g_edges g =
      (if dgt (hd es) NInf then [NInf] else []) @ es @ (if dlt (last es) PInf then [PInf] else [])"
    by (auto simp: general_ctor_def Let_def)
  show "g_edges g \<noteq> []" using ne E by simp
  show "hd (g_edges g) = NInf \<or> hd (g_edges g) = NaN"
    using ne E by (cases "hd es") (auto simp: dgt_def)
  show "last (g_edges g) = PInf \<or> last (g_edges g) = NaN"
    using ne E by (cases "last es") auto
  show "set (g_edges g) \<subseteq> set es \<union> {NInf, PInf}" using E by auto
  show "length es \<le> length (g_edges g)" using E by simp
  show "length (g_edges g) \<le> length es + 2" using E by simp
qed

lemma general_ctor_length:
  assumes "general_ctor es nm = Inr g"
  shows "length (g_edges g) =
           length es + (if dgt (hd es) NInf then 1 else 0) + (if dlt (last es) PInf then 1 else 0)"
  using assms by (auto simp: general_ctor_def Let_def split: if_splits)

lemma general_three_edges:
  assumes ctor: "general_ctor es nm = Inr g" and fin: "\<exists>e\<in>set es. is_finite e"
  shows "3 \<le> length (g_edges g)"
proof -
  from ctor have ne: "es \<noteq> []" by (auto simp: general_ctor_def split: if_splits)
  have fin_lt: "dgt e NInf \<and> dlt e PInf" if "is_finite e" for e
    using that by (cases e) (auto simp: dgt_def)
  show ?thesis
  proof (cases "length es = 1")
    case True
    then obtain e where es: "es = [e]" by (cases es) auto
    with fin have "is_finite e" by simp
    with fin_lt es show ?thesis by (simp add: general_ctor_length [OF ctor])
  next
    case one: False
    show ?thesis
    proof (cases "length es = 2")
      case True
      then obtain a b where es: "es = [a, b]"
        by (cases es; cases "tl es") auto
      with fin have "is_finite a \<or> is_finite b" by simp
      with fin_lt es show ?thesis by (auto simp: general_ctor_length [OF ctor])
    next
      case False
      with one ne have "3 \<le> length es" by (cases es; cases "tl es"; cases "tl (tl es)") auto
      then show ?thesis by (simp add: general_ctor_length [OF ctor])
    qed
  qed
qed

lemma general_edge_count:
  assumes "general_ctor es nm = Inr g"
  shows "vsize (g_edges g) = general_nbins g + 1"
  by (simp add: general_nbins_def)

lemma general_nbins_of_nat:
  "g_edges g \<noteq> [] \<Longrightarrow> general_nbins g = word_of_nat (length (g_edges g) - 1)"
  by (cases "g_edges g") (simp_all add: general_nbins_def vsize_def)

lemma unat_general_nbins:
  assumes "g_edges g \<noteq> []" and "length (g_edges g) < 2 ^ 64"
  shows "unat (general_nbins g) = length (g_edges g) - 1"
proof -
  have "length (g_edges g) - 1 < 2 ^ 64" using assms(2) by simp
  then show ?thesis
    by (simp add: general_nbins_of_nat [OF assms(1)] unat_of_nat_size_t)
qed

text \<open>The assertion of \<^verbatim>\<open>general::index\<close> holds on every constructed scheme, and the
  index is at most the number of bins.\<close>

lemma general_index_total:
  assumes "general_ctor es nm = Inr g"
  shows "\<exists>j. upper_bound (g_edges g) v = j \<and> 0 < j \<and> j \<le> length (g_edges g) \<and>
           general_index g v = Inr (word_of_nat (j - 1))"
proof -
  let ?E = "g_edges g"
  let ?j = "upper_bound ?E v"
  have ne: "?E \<noteq> []" by (rule general_ctor_edges(1) [OF assms])
  have "hd ?E = NInf \<or> hd ?E = NaN" by (rule general_ctor_edges(2) [OF assms])
  then have "\<not> dlt v (hd ?E)" by auto
  then have first: "\<not> dlt v (?E ! 0)" using ne by (simp add: hd_conv_nth)
  have "?j = 0 + length ?E \<or> dlt v (?E ! ?j)"
    unfolding upper_bound_def using upper_bound_loop_local [of ?E v 0 "length ?E"] by blast
  then have pos: "0 < ?j" using first ne by (cases "?j = 0") auto
  have "?j \<le> length ?E"
    unfolding upper_bound_def using upper_bound_loop_range [of 0 ?E v "length ?E"] by simp
  with pos show ?thesis by (simp add: general_index_def)
qed

text \<open>Plus infinity is above no edge: on every constructed scheme its index is the number
  of bins, one more than the index of the last bin.\<close>

lemma general_index_PInf:
  assumes "general_ctor es nm = Inr g"
  shows "general_index g PInf = Inr (general_nbins g)"
proof -
  have ne: "g_edges g \<noteq> []" by (rule general_ctor_edges(1) [OF assms])
  then have "0 < length (g_edges g)" by simp
  then show ?thesis
    by (simp add: general_index_def upper_bound_PInf general_nbins_of_nat [OF ne])
qed

text \<open>Every other value that is not a NaN lies in the bin of its index, when no supplied
  edge is a NaN. When the edges are strictly ascending, the edge above the index is
  the first edge strictly greater than the value, and minus infinity has index 0.\<close>

lemma general_index_interval:
  assumes ctor: "general_ctor es nm = Inr g"
    and nonan: "\<forall>e\<in>set es. \<not> isnan e"
    and v: "\<not> isnan v" "v \<noteq> PInf"
  shows "\<exists>i. general_index g v = Inr (word_of_nat i) \<and> i + 1 < length (g_edges g) \<and>
           i + 1 = upper_bound (g_edges g) v \<and>
           dle (g_edges g ! i) v \<and> dlt v (g_edges g ! (i + 1)) \<and>
           (sorted_wrt dlt (g_edges g) \<longrightarrow>
              (\<forall>k<i + 1. \<not> dlt v (g_edges g ! k)) \<and> (v = NInf \<longrightarrow> i = 0))"
proof -
  let ?E = "g_edges g"
  let ?j = "upper_bound ?E v"
  from general_index_total [OF ctor, of v]
  have pos: "0 < ?j" and le: "?j \<le> length ?E"
    and idx: "general_index g v = Inr (word_of_nat (?j - 1))" by auto
  have ne: "?E \<noteq> []" by (rule general_ctor_edges(1) [OF ctor])
  have E_nonan: "\<forall>e\<in>set ?E. \<not> isnan e"
    using general_ctor_edges(4) [OF ctor] nonan by (auto simp: isnan_def)
  have "last ?E = PInf \<or> last ?E = NaN" by (rule general_ctor_edges(3) [OF ctor])
  moreover have "last ?E \<in> set ?E" using ne by simp
  ultimately have last: "last ?E = PInf" using E_nonan by (auto simp: isnan_def)
  have v_lt: "dlt v PInf" using v by (simp add: dlt_PInf_iff isnan_def)
  have loc: "(?j = 0 \<or> \<not> dlt v (?E ! (?j - 1))) \<and> (?j = 0 + length ?E \<or> dlt v (?E ! ?j))"
    unfolding upper_bound_def using upper_bound_loop_local [of ?E v 0 "length ?E"] by blast
  have below: "\<not> dlt v (?E ! (?j - 1))" using loc pos by simp
  have "?j \<noteq> length ?E"
  proof
    assume "?j = length ?E"
    then have "?E ! (?j - 1) = last ?E" using ne by (simp add: last_conv_nth)
    with below last v_lt show False by simp
  qed
  then have lt: "?j < length ?E" and above: "dlt v (?E ! ?j)" using le loc by auto
  have "?E ! (?j - 1) \<in> set ?E" using lt by simp
  then have "\<not> isnan (?E ! (?j - 1))" using E_nonan by blast
  then have dle: "dle (?E ! (?j - 1)) v" using below v(1) by (simp add: not_dlt_dle)
  have sorted: "(\<forall>k<?j. \<not> dlt v (?E ! k)) \<and> (v = NInf \<longrightarrow> ?j - 1 = 0)"
    if s: "sorted_wrt dlt ?E"
  proof
    show all: "\<forall>k<?j. \<not> dlt v (?E ! k)"
    proof (intro allI impI notI)
      fix k assume k: "k < ?j" and vk: "dlt v (?E ! k)"
      show False
      proof (cases "k = ?j - 1")
        case True
        with vk below show False by simp
      next
        case False
        with k have "k < ?j - 1" by simp
        moreover have "?j - 1 < length ?E" using lt by simp
        ultimately have "dlt (?E ! k) (?E ! (?j - 1))"
          using s by (simp add: sorted_wrt_iff_nth_less)
        with vk have "dlt v (?E ! (?j - 1))" by (rule dlt_trans)
        with below show False by simp
      qed
    qed
    show "v = NInf \<longrightarrow> ?j - 1 = 0"
    proof
      assume vN: "v = NInf"
      show "?j - 1 = 0"
      proof (rule ccontr)
        assume "?j - 1 \<noteq> 0"
        then have "0 < ?j - 1" by simp
        moreover have "?j - 1 < length ?E" using lt by simp
        ultimately have "dlt (?E ! 0) (?E ! (?j - 1))"
          using s by (simp add: sorted_wrt_iff_nth_less)
        then have "?E ! (?j - 1) \<noteq> NInf" by (cases "?E ! 0") auto
        moreover have "\<not> dlt NInf (?E ! (?j - 1))" using below vN by simp
        moreover have "?E ! (?j - 1) \<noteq> NaN"
          using \<open>\<not> isnan (?E ! (?j - 1))\<close> by (simp add: isnan_def)
        ultimately show False by (simp add: dlt_NInf_iff)
      qed
    qed
  qed
  have "?j - 1 + 1 = ?j" using pos by simp
  with idx lt dle above sorted show ?thesis
    by (intro exI [of _ "?j - 1"]) auto
qed

lemma demo_dim1_ctor: "general_ctor [Fin 0, Fin 1, Fin 2] ''general'' = Inr demo_dim1"
  by (simp add: general_ctor_def demo_dim1_def dgt_def)

lemma demo_dim1_index: "general_index demo_dim1 (Fin 1) = Inr 2"
  by (simp add: demo_dim1_def general_index_def upper_bound_def upper_bound_loop_step)

lemma general_index_interval_demo:
  "\<exists>i. general_index demo_dim1 (Fin 1) = Inr (word_of_nat i) \<and>
       i + 1 < length (g_edges demo_dim1) \<and>
       dle (g_edges demo_dim1 ! i) (Fin 1) \<and> dlt (Fin 1) (g_edges demo_dim1 ! (i + 1))"
proof -
  have c: "general_ctor [Fin 0, Fin 1, Fin 2] ''general'' = Inr demo_dim1"
    by (simp add: general_ctor_def demo_dim1_def dgt_def)
  have n: "\<forall>e\<in>set [Fin 0, Fin 1, Fin 2]. \<not> isnan e"
    by (simp add: isnan_def)
  have v: "\<not> isnan (Fin 1)" "Fin 1 \<noteq> PInf"
    by (simp_all add: isnan_def)
  from general_index_interval [OF c n v] show ?thesis by blast
qed

text \<open>
  Claim C1. For every non-equispaced scheme and every value, \<^verbatim>\<open>general::index\<close> returns
  the \<open>i\<close> with \<open>E[i] \<le> v < E[i+1]\<close>, one less than the position of the first edge strictly
  greater than the value; in particular the index of minus infinity is 0 and the index of
  plus infinity is \<open>len(E) - 2\<close>.

  The code does not do this at plus infinity. On the scheme of the demonstration, built
  from the edges 0, 1, 2, the edge list has five elements and four bins, with indices 0 to
  3; no edge is greater than plus infinity, so the search returns the end of the list and
  the index is 4, the number of bins, where the claim has \<open>len(E) - 2 = 3\<close>.
\<close>

theorem general_index_plus_infinity:
  "general_ctor [Fin 0, Fin 1, Fin 2] ''general'' = Inr demo_dim1 \<and>
   g_edges demo_dim1 = [NInf, Fin 0, Fin 1, Fin 2, PInf] \<and>
   general_nbins demo_dim1 = 4 \<and>
   general_index demo_dim1 PInf = Inr 4 \<and>
   vsize (g_edges demo_dim1) - 2 = 3 \<and>
   general_index demo_dim1 NInf = Inr 0 \<and>
   general_index demo_dim1 (Fin 2) = Inr 3"
  by (simp add: general_ctor_def demo_dim1_def dgt_def general_nbins_def vsize_def
      general_index_def upper_bound_def upper_bound_loop_step)

section \<open>The edges of the equispaced scheme\<close>

lemma push_edges_closed:
  "i \<le> unat nsteps \<Longrightarrow>
   push_edges T offset rng nsteps i acc =
     acc @ map (\<lambda>k. uniform_map T offset rng
                  (ddiv (double_of_size_t (word_of_nat k)) (double_of_size_t (nsteps - 1)))) [i..<unat nsteps]"
proof (induction T offset rng nsteps i acc rule: push_edges.induct)
  case (1 T offset rng nsteps i acc)
  show ?case
  proof (cases "i < unat nsteps")
    case True
    then have "Suc i \<le> unat nsteps" by simp
    with 1(1) [OF True] True show ?thesis
      by (subst push_edges.simps) (simp add: upt_conv_Cons)
  next
    case False
    with 1(2) show ?thesis
      by (subst push_edges.simps) simp
  qed
qed

lemma uniform_ctor_fields:
  "u_trans (uniform_ctor T low high n nm) = T"
  "u_offset (uniform_ctor T low high n nm) = timap T low"
  "u_range (uniform_ctor T low high n nm) = dsub (timap T high) (timap T low)"
  "u_nsteps (uniform_ctor T low high n nm) = n + 1"
  "u_name (uniform_ctor T low high n nm) = nm"
  "u_min (uniform_ctor T low high n nm) =
     uniform_map T (timap T low) (dsub (timap T high) (timap T low)) (Fin 0)"
  "u_max (uniform_ctor T low high n nm) =
     uniform_map T (timap T low) (dsub (timap T high) (timap T low)) (Fin 1)"
  by (simp_all add: uniform_ctor_def Let_def)

lemma uniform_edges_closed:
  "u_edges (uniform_ctor T low high n nm) =
     NInf # map (\<lambda>k. uniform_map T (timap T low) (dsub (timap T high) (timap T low))
                        (ddiv (double_of_size_t (word_of_nat k)) (double_of_size_t (n + 1 - 1))))
              [0..<unat (n + 1)] @ [PInf]"
  by (simp add: uniform_ctor_def Let_def push_edges_closed)

lemma uniform_ctor_length: "length (u_edges (uniform_ctor T low high n nm)) = unat (n + 1) + 2"
  by (simp add: uniform_edges_closed)

lemma vsize_uniform_edges:
  "vsize (u_edges (uniform_ctor T low high n nm)) = n + 3"
  by (simp add: vsize_def uniform_ctor_length)

lemma unat_uniform_nbins:
  assumes "unat n + 2 < 2 ^ 64"
  shows "unat (uniform_nbins (uniform_ctor T low high n nm)) = unat n + 2"
proof -
  have "unat (n + 2) = unat n + 2"
    using assms by (simp add: unat_word_ariths)
  then show ?thesis by (simp add: uniform_nbins_def uniform_ctor_fields add.assoc)
qed

lemma demo_nbins: "uniform_nbins demo_dim = 13" "general_nbins demo_dim1 = 4"
  by (simp_all add: demo_dim_def uniform_ctor_def uniform_nbins_def Let_def
      demo_dim1_def general_nbins_def vsize_def)

text \<open>
  Claim C5, as the code has it. For every equispaced scheme built from \<open>(low, high,
  requested_bin_count, transform)\<close>, with \<open>offset = imap(low)\<close>,
  \<open>range = imap(high) - imap(low)\<close> and \<open>steps = requested_bin_count + 1\<close> computed in
  \<^verbatim>\<open>size_t\<close>: the edge list is minus infinity, then \<open>map(range * (k / (steps - 1)) + offset)\<close>
  for \<open>0 \<le> k < steps\<close>, then plus infinity, and \<^verbatim>\<open>nbins()\<close> returns \<open>steps + 1\<close> in
  \<^verbatim>\<open>size_t\<close>. When the requested bin count is at most \<open>2^64 - 3\<close> nothing wraps: \<open>steps\<close> is
  the requested bin count plus one, there are that many interior edges, and \<^verbatim>\<open>nbins()\<close> is
  the requested bin count plus two. The edges are computed in the arithmetic of doubles.
\<close>

theorem uniform_ctor_edges:
  "u_nsteps (uniform_ctor T low high n nm) = n + 1 \<and>
   uniform_nbins (uniform_ctor T low high n nm) = u_nsteps (uniform_ctor T low high n nm) + 1 \<and>
   u_edges (uniform_ctor T low high n nm) =
     [NInf] @
     map (\<lambda>k. tmap T (dadd (dmul (dsub (timap T high) (timap T low))
                               (ddiv (double_of_size_t (word_of_nat k))
                                     (double_of_size_t (n + 1 - 1))))
                         (timap T low)))
       [0..<unat (n + 1)] @
     [PInf] \<and>
   (unat n + 2 < 2 ^ 64 \<longrightarrow>
      unat (u_nsteps (uniform_ctor T low high n nm)) = unat n + 1 \<and>
      unat (u_nsteps (uniform_ctor T low high n nm) - 1) = unat n \<and>
      unat (uniform_nbins (uniform_ctor T low high n nm)) = unat n + 2 \<and>
      length (u_edges (uniform_ctor T low high n nm)) = unat n + 3 \<and>
      u_edges (uniform_ctor T low high n nm) =
        [NInf] @
        map (\<lambda>k. tmap T (dadd (dmul (dsub (timap T high) (timap T low))
                                  (ddiv (double_of_size_t (word_of_nat k))
                                        (double_of_size_t n)))
                            (timap T low)))
          [0..<unat n + 1] @
        [PInf])"
proof (intro conjI impI)
  let ?offset = "timap T low"
  let ?range = "dsub (timap T high) (timap T low)"
  let ?u = "uniform_ctor T low high n nm"
  have loop: "push_edges T ?offset ?range (n + 1) 0 [NInf] =
      [NInf] @ map (\<lambda>k. uniform_map T ?offset ?range
                          (ddiv (double_of_size_t (word_of_nat k))
                                (double_of_size_t (n + 1 - 1))))
                [0..<unat (n + 1)]"
    by (rule push_edges_closed) simp
  have "u_edges ?u = push_edges T ?offset ?range (n + 1) 0 [NInf] @ [PInf]"
    by (simp add: uniform_ctor_def Let_def)
  then show edges: "u_edges ?u =
     [NInf] @
     map (\<lambda>k. tmap T (dadd (dmul ?range (ddiv (double_of_size_t (word_of_nat k))
                                               (double_of_size_t (n + 1 - 1))))
                         ?offset))
       [0..<unat (n + 1)] @
     [PInf]"
    unfolding loop by (simp add: uniform_map_def)
  show steps: "u_nsteps ?u = n + 1"
    by (simp add: uniform_ctor_def Let_def)
  show "uniform_nbins ?u = u_nsteps ?u + 1"
    by (simp add: uniform_nbins_def)
  {
    assume n: "unat n + 2 < 2 ^ 64"
    then have "unat n + 1 < 2 ^ 64" by simp
    then have n1: "unat (n + 1) = unat n + 1"
      by (simp add: unat_add_lem [THEN iffD1])
    show "unat (u_nsteps ?u) = unat n + 1"
      unfolding steps by (rule n1)
    show "unat (u_nsteps ?u - 1) = unat n"
      unfolding steps by simp
    show "unat (uniform_nbins ?u) = unat n + 2"
      by (rule unat_uniform_nbins [OF n])
    show "length (u_edges ?u) = unat n + 3"
      by (simp add: uniform_ctor_length n1)
    show "u_edges ?u =
        [NInf] @
        map (\<lambda>k. tmap T (dadd (dmul ?range (ddiv (double_of_size_t (word_of_nat k))
                                                  (double_of_size_t n)))
                            ?offset))
          [0..<unat n + 1] @
        [PInf]"
      unfolding edges n1 by simp
  }
qed

theorem uniform_ctor_edges_witness:
  "u_edges (uniform_ctor identity (Fin 0) (Fin 8) 4 []) =
     [NInf, Fin 0, Fin 2, Fin 4, Fin 6, Fin 8, PInf] \<and>
   unat (u_nsteps (uniform_ctor identity (Fin 0) (Fin 8) 4 [])) = 5 \<and>
   unat (uniform_nbins (uniform_ctor identity (Fin 0) (Fin 8) 4 [])) = 6"
proof -
  have n: "unat (4 :: size_t) + 2 < 2 ^ 64" by simp
  note t = uniform_ctor_edges [of identity "Fin 0" "Fin 8" 4 "[]"]
  from t n have e: "u_edges (uniform_ctor identity (Fin 0) (Fin 8) 4 []) =
        [NInf] @
        map (\<lambda>k. tmap identity (dadd (dmul (dsub (timap identity (Fin 8)) (timap identity (Fin 0)))
                                  (ddiv (double_of_size_t (word_of_nat k))
                                        (double_of_size_t 4)))
                            (timap identity (Fin 0))))
          [0..<unat (4 :: size_t) + 1] @
        [PInf]"
    by blast
  have "map (\<lambda>k. tmap identity (dadd (dmul (dsub (timap identity (Fin 8)) (timap identity (Fin 0)))
                                  (ddiv (double_of_size_t (word_of_nat k))
                                        (double_of_size_t 4)))
                            (timap identity (Fin 0))))
          [0..<unat (4 :: size_t) + 1] = [Fin 0, Fin 2, Fin 4, Fin 6, Fin 8]"
    by (simp add: identity_def dsub_def double_of_size_t_small
        upt_rec [of _ "numeral n" for n] upt_rec [of _ "Suc n" for n])
  with e have "u_edges (uniform_ctor identity (Fin 0) (Fin 8) 4 []) =
     [NInf, Fin 0, Fin 2, Fin 4, Fin 6, Fin 8, PInf]"
    by simp
  moreover from t n have "unat (u_nsteps (uniform_ctor identity (Fin 0) (Fin 8) 4 [])) =
      unat (4 :: size_t) + 1"
    by blast
  moreover from t n have "unat (uniform_nbins (uniform_ctor identity (Fin 0) (Fin 8) 4 [])) =
      unat (4 :: size_t) + 2"
    by blast
  ultimately show ?thesis by simp
qed

text \<open>
  Claim C5, as stated, fails at the requested bin count \<open>2^64 - 1\<close>: \<^verbatim>\<open>nsteps_\<close> wraps to 0,
  the loop pushes no edge, and \<^verbatim>\<open>nbins()\<close> returns 1, where the requested bin count plus
  two is \<open>2^64 + 1\<close>.
\<close>

theorem uniform_ctor_edges_counterexample:
  "u_nsteps (uniform_ctor identity (Fin 0) (Fin 10) 18446744073709551615 []) = 0 \<and>
   u_edges (uniform_ctor identity (Fin 0) (Fin 10) 18446744073709551615 []) = [NInf, PInf] \<and>
   unat (uniform_nbins (uniform_ctor identity (Fin 0) (Fin 10) 18446744073709551615 [])) = 1 \<and>
   unat (18446744073709551615 :: size_t) + 2 = 18446744073709551617"
  by (simp add: uniform_edges_closed uniform_nbins_def uniform_ctor_fields)

section \<open>The index of the equispaced scheme\<close>

lemma demo_dim_index: "uniform_index demo_dim (Fin 1) = Inr 2"
  by (simp add: demo_dim_def uniform_ctor_def uniform_index_def Let_def identity_def
      uniform_map_def uniform_imap_def dge_def dle_def dsub_def double_of_size_t_small truncated_def)

lemma dge_above: "dlt low high \<Longrightarrow> dge v high \<Longrightarrow> \<not> dlt v low"
  by (cases low; cases high; cases v) (auto simp: dge_def dle_def)

lemma uniform_index_branches:
  "uniform_index u v =
     (if dlt v (u_min u) then Inr 0
      else if dge v (u_max u) then Inr (vsize (u_edges u) - 2)
      else (case size_t_of_double (position u v) of Inl e \<Rightarrow> Inl e | Inr k \<Rightarrow> Inr (k + 1)))"
  by (simp add: uniform_index_def position_def)

lemma position_integral: "position u v = Fin r \<Longrightarrow> \<exists>z. r = real_of_int z"
  unfolding position_def
  by (cases "dmul (double_of_size_t (u_nsteps u - 1))
       (uniform_imap (u_trans u) (u_offset u) (u_range u) v)") auto

lemma size_t_of_position:
  assumes "position u v = Fin r" and "0 \<le> r" and "r < 2 ^ 64"
  shows "size_t_of_double (position u v) = Inr (word_of_int \<lfloor>r\<rfloor>)"
proof -
  from assms(2) have t: "truncated r = \<lfloor>r\<rfloor>" by (simp add: truncated_def)
  have "0 \<le> \<lfloor>r\<rfloor>" using assms(2) by simp
  moreover have "\<lfloor>r\<rfloor> < 2 ^ 64" using assms(3) by (simp add: floor_less_iff)
  ultimately show ?thesis by (simp add: assms(1) t)
qed

lemma size_t_of_position_undefined:
  assumes "\<not> (\<exists>r. position u v = Fin r \<and> 0 \<le> r \<and> r < 2 ^ 64)"
  shows "size_t_of_double (position u v) = Inl UndefinedBehaviour"
proof (cases "position u v")
  case (Fin r)
  from position_integral [OF Fin] obtain z where z: "r = real_of_int z" by blast
  from assms Fin have out: "r < 0 \<or> 2 ^ 64 \<le> r" by auto
  have "truncated r = z" by (simp add: truncated_def z)
  moreover have "z < 0 \<or> 2 ^ 64 \<le> z"
  proof -
    from out z have "real_of_int z < 0 \<or> real_of_int (2 ^ 64) \<le> real_of_int z" by simp
    then show ?thesis by (simp only: of_int_less_0_iff of_int_le_iff)
  qed
  ultimately show ?thesis using Fin by auto
qed simp_all

lemma exact_scheme:
  "u_min (uniform_ctor identity (Fin 0) (Fin 8) 4 []) = Fin 0"
  "u_max (uniform_ctor identity (Fin 0) (Fin 8) 4 []) = Fin 8"
  "position (uniform_ctor identity (Fin 0) (Fin 8) 4 []) (Fin 4) = Fin 2"
  "uniform_nbins (uniform_ctor identity (Fin 0) (Fin 8) 4 []) = 6"
  by (simp_all add: uniform_ctor_fields identity_def uniform_map_def uniform_imap_def dsub_def
      position_def double_of_size_t_small uniform_nbins_def)

text \<open>
  Claim C4, as the code has it. \<^verbatim>\<open>uniform::index\<close> compares the value with the bounds
  that the constructor caches, \<^verbatim>\<open>min_ = map(0)\<close> and \<^verbatim>\<open>max_ = map(1)\<close>, both computed in the
  arithmetic of doubles from \<open>imap(low)\<close> and \<open>imap(high) - imap(low)\<close>. For every equispaced
  scheme and every value: a value below \<^verbatim>\<open>min_\<close> has index 0; any other value that is at
  least \<^verbatim>\<open>max_\<close> has index \<open>bin_count() - 1\<close>; and any other value has index
  \<open>floor((steps - 1) * u) + 1\<close>, where \<open>steps = requested_bin_count + 1\<close> and
  \<open>u = (imap(v) - imap(low)) / (imap(high) - imap(low))\<close> are computed in \<^verbatim>\<open>size_t\<close> and in the
  arithmetic of doubles, when that floor is a number from 0 up to, and not including,
  \<open>2^64\<close>; when it is not, its conversion to \<^verbatim>\<open>size_t\<close> is undefined. Hence for every scheme
  whose cached bounds are \<open>low\<close> and \<open>high\<close> with \<open>low < high\<close>, and every value that is not a
  NaN: a value below \<open>low\<close> has index 0, a value that is at least \<open>high\<close> has index
  \<open>bin_count() - 1\<close>, and any other value has the index of the formula.
\<close>

theorem uniform_index_cases:
  "u_nsteps (uniform_ctor T low high n nm) = n + 1 \<and>
   u_min (uniform_ctor T low high n nm) =
     tmap T (dadd (dmul (dsub (timap T high) (timap T low)) (Fin 0)) (timap T low)) \<and>
   u_max (uniform_ctor T low high n nm) =
     tmap T (dadd (dmul (dsub (timap T high) (timap T low)) (Fin 1)) (timap T low)) \<and>
   position (uniform_ctor T low high n nm) v =
     dfloor (dmul (double_of_size_t (n + 1 - 1))
       (ddiv (dsub (timap T v) (timap T low)) (dsub (timap T high) (timap T low)))) \<and>
   (dlt v (u_min (uniform_ctor T low high n nm)) \<longrightarrow>
      uniform_index (uniform_ctor T low high n nm) v = Inr 0) \<and>
   (\<not> dlt v (u_min (uniform_ctor T low high n nm)) \<and>
    dge v (u_max (uniform_ctor T low high n nm)) \<longrightarrow>
      uniform_index (uniform_ctor T low high n nm) v =
        Inr (uniform_nbins (uniform_ctor T low high n nm) - 1)) \<and>
   (\<not> dlt v (u_min (uniform_ctor T low high n nm)) \<and>
    \<not> dge v (u_max (uniform_ctor T low high n nm)) \<longrightarrow>
      (\<forall>r. position (uniform_ctor T low high n nm) v = Fin r \<and> 0 \<le> r \<and> r < 2 ^ 64 \<longrightarrow>
         uniform_index (uniform_ctor T low high n nm) v = Inr (word_of_int \<lfloor>r\<rfloor> + 1)) \<and>
      (\<not> (\<exists>r. position (uniform_ctor T low high n nm) v = Fin r \<and> 0 \<le> r \<and> r < 2 ^ 64) \<longrightarrow>
         uniform_index (uniform_ctor T low high n nm) v = Inl UndefinedBehaviour)) \<and>
   (u_min (uniform_ctor T low high n nm) = low \<and>
    u_max (uniform_ctor T low high n nm) = high \<and> dlt low high \<and> \<not> isnan v \<longrightarrow>
      (dlt v low \<longrightarrow> uniform_index (uniform_ctor T low high n nm) v = Inr 0) \<and>
      (dge v high \<longrightarrow>
         uniform_index (uniform_ctor T low high n nm) v =
           Inr (uniform_nbins (uniform_ctor T low high n nm) - 1)) \<and>
      (\<not> dlt v low \<and> \<not> dge v high \<longrightarrow>
         (\<forall>r. position (uniform_ctor T low high n nm) v = Fin r \<and> 0 \<le> r \<and> r < 2 ^ 64 \<longrightarrow>
            uniform_index (uniform_ctor T low high n nm) v = Inr (word_of_int \<lfloor>r\<rfloor> + 1))))"
proof -
  let ?u = "uniform_ctor T low high n nm"
  have last: "vsize (u_edges ?u) - 2 = uniform_nbins ?u - 1"
    by (simp add: vsize_uniform_edges uniform_nbins_def uniform_ctor_fields)
  have below: "uniform_index ?u v = Inr 0" if "dlt v (u_min ?u)"
    using that by (simp add: uniform_index_branches)
  have above: "uniform_index ?u v = Inr (uniform_nbins ?u - 1)"
    if "\<not> dlt v (u_min ?u)" "dge v (u_max ?u)"
    using that last by (simp add: uniform_index_branches)
  have inside: "uniform_index ?u v = Inr (word_of_int \<lfloor>r\<rfloor> + 1)"
    if "\<not> dlt v (u_min ?u)" "\<not> dge v (u_max ?u)"
      and "position ?u v = Fin r" "0 \<le> r" "r < 2 ^ 64" for r
    using that(1,2) size_t_of_position [OF that(3-5)]
    by (simp add: uniform_index_branches)
  have undefined: "uniform_index ?u v = Inl UndefinedBehaviour"
    if "\<not> dlt v (u_min ?u)" "\<not> dge v (u_max ?u)"
      and "\<not> (\<exists>r. position ?u v = Fin r \<and> 0 \<le> r \<and> r < 2 ^ 64)"
    using that(1,2) size_t_of_position_undefined [OF that(3)]
    by (simp add: uniform_index_branches)
  have pos: "position ?u v =
     dfloor (dmul (double_of_size_t (n + 1 - 1))
       (ddiv (dsub (timap T v) (timap T low)) (dsub (timap T high) (timap T low))))"
    by (simp add: position_def uniform_ctor_fields uniform_imap_def)
  have bounds: "(dlt v low \<longrightarrow> uniform_index ?u v = Inr 0) \<and>
      (dge v high \<longrightarrow> uniform_index ?u v = Inr (uniform_nbins ?u - 1)) \<and>
      (\<not> dlt v low \<and> \<not> dge v high \<longrightarrow>
         (\<forall>r. position ?u v = Fin r \<and> 0 \<le> r \<and> r < 2 ^ 64 \<longrightarrow>
            uniform_index ?u v = Inr (word_of_int \<lfloor>r\<rfloor> + 1)))"
    if eq: "u_min ?u = low" "u_max ?u = high" and lh: "dlt low high"
  proof (intro conjI impI allI)
    assume "dlt v low"
    then show "uniform_index ?u v = Inr 0" using below eq by simp
  next
    assume ge: "dge v high"
    with lh have "\<not> dlt v low" by (rule dge_above)
    with ge show "uniform_index ?u v = Inr (uniform_nbins ?u - 1)"
      using above eq by simp
  next
    fix r assume "\<not> dlt v low \<and> \<not> dge v high"
      and "position ?u v = Fin r \<and> 0 \<le> r \<and> r < 2 ^ 64"
    then show "uniform_index ?u v = Inr (word_of_int \<lfloor>r\<rfloor> + 1)"
      using inside [of r] eq by simp
  qed
  show ?thesis
    using below above inside undefined pos bounds
    by (simp add: uniform_ctor_fields uniform_map_def)
qed

theorem uniform_index_cases_witness:
  "uniform_index (uniform_ctor identity (Fin 0) (Fin 8) 4 []) (Fin (- 1)) = Inr 0 \<and>
   uniform_index (uniform_ctor identity (Fin 0) (Fin 8) 4 []) PInf = Inr 5 \<and>
   uniform_index (uniform_ctor identity (Fin 0) (Fin 8) 4 []) (Fin 8) = Inr 5 \<and>
   uniform_index (uniform_ctor identity (Fin 0) (Fin 8) 4 []) (Fin 4) = Inr 3"
proof -
  let ?u = "uniform_ctor identity (Fin 0) (Fin 8) 4 []"
  have b: "u_min ?u = Fin 0 \<and> u_max ?u = Fin 8 \<and> dlt (Fin 0) (Fin 8)"
    by (simp add: exact_scheme)
  have nn: "\<not> isnan (Fin (- 1))" "\<not> isnan PInf" "\<not> isnan (Fin 8)" "\<not> isnan (Fin 4)"
    by (simp_all add: isnan_def)
  have "dlt (Fin (- 1)) (Fin 0)" by simp
  with uniform_index_cases [of identity "Fin 0" "Fin 8" 4 "[]" "Fin (- 1)"] b nn(1)
  have 1: "uniform_index ?u (Fin (- 1)) = Inr 0" by blast
  have "dge PInf (Fin 8)" by (simp add: dge_def dle_def)
  with uniform_index_cases [of identity "Fin 0" "Fin 8" 4 "[]" PInf] b nn(2)
  have "uniform_index ?u PInf = Inr (uniform_nbins ?u - 1)" by blast
  then have 2: "uniform_index ?u PInf = Inr 5" by (simp add: exact_scheme)
  have "dge (Fin 8) (Fin 8)" by (simp add: dge_def dle_def)
  with uniform_index_cases [of identity "Fin 0" "Fin 8" 4 "[]" "Fin 8"] b nn(3)
  have "uniform_index ?u (Fin 8) = Inr (uniform_nbins ?u - 1)" by blast
  then have 3: "uniform_index ?u (Fin 8) = Inr 5" by (simp add: exact_scheme)
  have "\<not> dlt (Fin 4) (Fin 0) \<and> \<not> dge (Fin 4) (Fin 8)" by (simp add: dge_def dle_def)
  moreover have "position ?u (Fin 4) = Fin 2 \<and> (0 :: real) \<le> 2 \<and> (2 :: real) < 2 ^ 64"
    by (simp add: exact_scheme)
  ultimately have "uniform_index ?u (Fin 4) = Inr (word_of_int \<lfloor>2 :: real\<rfloor> + 1)"
    using uniform_index_cases [of identity "Fin 0" "Fin 8" 4 "[]" "Fin 4"] b nn(4) by blast
  then have 4: "uniform_index ?u (Fin 4) = Inr 3" by simp
  from 1 2 3 4 show ?thesis by blast
qed

text \<open>
  Claim C4, as stated, fails where the cached bounds are not \<open>low\<close> and \<open>high\<close>. With the
  identity, \<open>low = -inf\<close> and \<open>high = 0\<close>, the constructor computes \<open>range_ = +inf\<close> and
  \<open>min_ = max_ = NaN\<close> (\<open>inf * 0\<close> and \<open>inf - inf\<close>); both range tests of \<^verbatim>\<open>index\<close> are false for
  the value 5, which is above \<open>high\<close>, and the last branch converts a NaN to \<^verbatim>\<open>size_t\<close>, where
  the claim has \<open>bin_count() - 1 = 2\<close>. With the finite bounds \<open>low = -2^1023\<close> and
  \<open>high = 2^1023\<close>, \<open>high - low\<close> overflows to \<open>+inf\<close>, \<^verbatim>\<open>min_\<close> is a NaN again, and the value
  \<open>-1.5 * 2^1023\<close>, which is below \<open>low\<close>, has index 1, where the claim has 0.
\<close>

theorem uniform_index_counterexample:
  "dlt NInf (Fin 0) \<and> \<not> isnan (Fin 5) \<and> dge (Fin 5) (Fin 0) \<and>
   u_min (uniform_ctor identity NInf (Fin 0) 1 []) = NaN \<and>
   u_max (uniform_ctor identity NInf (Fin 0) 1 []) = NaN \<and>
   uniform_nbins (uniform_ctor identity NInf (Fin 0) 1 []) - 1 = 2 \<and>
   uniform_index (uniform_ctor identity NInf (Fin 0) 1 []) (Fin 5) = Inl UndefinedBehaviour \<and>
   dlt (Fin (- (2 ^ 1023))) (Fin (2 ^ 1023)) \<and>
   dlt (Fin (- (3 * 2 ^ 1022))) (Fin (- (2 ^ 1023))) \<and>
   u_range (uniform_ctor identity (Fin (- (2 ^ 1023))) (Fin (2 ^ 1023)) 4 []) = PInf \<and>
   u_min (uniform_ctor identity (Fin (- (2 ^ 1023))) (Fin (2 ^ 1023)) 4 []) = NaN \<and>
   uniform_index (uniform_ctor identity (Fin (- (2 ^ 1023))) (Fin (2 ^ 1023)) 4 [])
     (Fin (- (3 * 2 ^ 1022))) = Inr 1"
  by (simp add: isnan_def dge_def dle_def uniform_ctor_fields uniform_nbins_def
      uniform_index_def identity_def uniform_map_def uniform_imap_def dsub_def
      double_of_size_t_small inf_signed_def overflow_def truncated_def)


section \<open>The invariant of the schemes\<close>

text \<open>
  Claim C3, as the code has it. For every scheme of either class, the number of edges is
  the number of bins plus one (in \<^verbatim>\<open>size_t\<close>). The number of bins is at least 2 for a
  non-equispaced scheme built from a list that holds a finite edge or at least three
  edges, and for an equispaced scheme whose requested bin count is at most \<open>2^64 - 3\<close>.
  A non-equispaced scheme exists when the supplied list is not empty, and the size of its
  edge vector is a \<^verbatim>\<open>size_t\<close>.
\<close>

theorem binning_invariant:
  "(general_ctor es nm = Inr g \<longrightarrow>
      vsize (g_edges g) = general_nbins g + 1 \<and>
      (((\<exists>e\<in>set es. is_finite e) \<or> 3 \<le> length es) \<and> length (g_edges g) < 2 ^ 64 \<longrightarrow>
         2 \<le> general_nbins g)) \<and>
   vsize (u_edges (uniform_ctor T low high n unm)) = uniform_nbins (uniform_ctor T low high n unm) + 1 \<and>
   (unat n + 2 < 2 ^ 64 \<longrightarrow> 2 \<le> uniform_nbins (uniform_ctor T low high n unm))"
proof (intro conjI impI)
  assume ctor: "general_ctor es nm = Inr g"
  show "vsize (g_edges g) = general_nbins g + 1"
    by (rule general_edge_count [OF ctor])
next
  assume ctor: "general_ctor es nm = Inr g"
    and h: "((\<exists>e\<in>set es. is_finite e) \<or> 3 \<le> length es) \<and> length (g_edges g) < 2 ^ 64"
  have "3 \<le> length (g_edges g)"
  proof (cases "\<exists>e\<in>set es. is_finite e")
    case True
    then show ?thesis by (rule general_three_edges [OF ctor])
  next
    case False
    with h have "3 \<le> length es" by blast
    with general_ctor_edges(5) [OF ctor] show ?thesis by simp
  qed
  moreover have "unat (general_nbins g) = length (g_edges g) - 1"
    using general_ctor_edges(1) [OF ctor] h by (simp add: unat_general_nbins)
  ultimately show "2 \<le> general_nbins g"
    by (simp add: word_le_nat_alt)
next
  show "vsize (u_edges (uniform_ctor T low high n unm)) =
          uniform_nbins (uniform_ctor T low high n unm) + 1"
    by (simp add: vsize_uniform_edges uniform_nbins_def uniform_ctor_fields)
next
  assume "unat n + 2 < 2 ^ 64"
  then have "unat (uniform_nbins (uniform_ctor T low high n unm)) = unat n + 2"
    by (rule unat_uniform_nbins)
  then show "2 \<le> uniform_nbins (uniform_ctor T low high n unm)"
    by (simp add: word_le_nat_alt)
qed

theorem binning_invariant_witness:
  "vsize (g_edges demo_dim1) = general_nbins demo_dim1 + 1 \<and>
   2 \<le> general_nbins demo_dim1 \<and>
   vsize (u_edges demo_dim) = uniform_nbins demo_dim + 1 \<and>
   2 \<le> uniform_nbins demo_dim"
proof -
  have fin: "(\<exists>e\<in>set [Fin 0, Fin 1, Fin 2]. is_finite e) \<or> 3 \<le> length [Fin 0 :: double, Fin 1, Fin 2]"
    by simp
  have len: "length (g_edges demo_dim1) < 2 ^ 64"
    by (simp add: demo_dim1_def)
  have n: "unat (11 :: size_t) + 2 < 2 ^ 64"
    by simp
  from binning_invariant [of "[Fin 0, Fin 1, Fin 2]" "''general''" demo_dim1
      identity "Fin 0" "Fin 10" 11 "''dimension''"] demo_dim1_ctor fin len n
  show ?thesis unfolding demo_dim_def by blast
qed

text \<open>
  Claim C3, as stated, fails: the number of bins is not always at least 2. The scheme built
  from the single edge minus infinity has the edges \<open>[-inf, +inf]\<close> and one bin, and so has
  the equispaced scheme with the requested bin count \<open>2^64 - 1\<close>, where
  \<^verbatim>\<open>nsteps_ = nbins + 1\<close> wraps to 0.
\<close>

theorem bin_count_counterexample:
  "general_ctor [NInf] [] = Inr \<lparr>g_name = [], g_edges = [NInf, PInf]\<rparr> \<and>
   general_nbins \<lparr>g_name = [], g_edges = [NInf, PInf]\<rparr> = 1 \<and>
   \<not> 2 \<le> general_nbins \<lparr>g_name = [], g_edges = [NInf, PInf]\<rparr> \<and>
   u_edges (uniform_ctor identity (Fin 0) (Fin 10) (- 1) []) = [NInf, PInf] \<and>
   uniform_nbins (uniform_ctor identity (Fin 0) (Fin 10) (- 1) []) = 1 \<and>
   \<not> 2 \<le> uniform_nbins (uniform_ctor identity (Fin 0) (Fin 10) (- 1) [])"
  by (simp add: general_ctor_def dgt_def general_nbins_def vsize_def
      uniform_edges_closed uniform_nbins_def uniform_ctor_fields word_le_nat_alt)

section \<open>Sizes, strides and offsets\<close>

lemma valid_iff: "valid vs \<longleftrightarrow> (\<forall>v\<in>set vs. \<not> isnan v)"
  by (induction vs) auto

lemma size_impl_prod: "size_impl ds = prod_list (map nbins ds)"
  by (induction ds) (simp_all add: extent_def)

lemma stride_drop:
  "i < length ds \<Longrightarrow> stride (drop i ds) = prod_list (map nbins (drop (Suc i) ds))"
proof -
  assume "i < length ds"
  then have "drop i ds = ds ! i # drop (Suc i) ds"
    by (simp add: Cons_nth_drop_Suc)
  then show ?thesis by (simp add: size_impl_prod)
qed

lemma index_impl_sum:
  assumes "length vs = length ds"
    and "\<forall>i<length ds. dim_index (ds ! i) (vs ! i) = Inr (idx i)"
  shows "index_impl ds vs = Inr (\<Sum>i<length ds. idx i * stride (drop i ds))"
  using assms
proof (induction ds arbitrary: vs idx)
  case Nil
  then show ?case by simp
next
  case (Cons d ds)
  from Cons.prems(1) obtain v tail where vs: "vs = v # tail" and len: "length tail = length ds"
    by (cases vs) auto
  from Cons.prems(2) vs have head: "dim_index d v = Inr (idx 0)"
    by auto
  have "\<forall>i<length ds. dim_index (ds ! i) (tail ! i) = Inr ((idx \<circ> Suc) i)"
    using Cons.prems(2) vs by auto
  from Cons.IH [OF len this]
  have tl: "index_impl ds tail = Inr (\<Sum>i<length ds. idx (Suc i) * stride (drop i ds))"
    by simp
  have "(\<Sum>i<Suc (length ds). idx i * stride (drop i (d # ds))) =
          idx 0 * stride (drop 0 (d # ds)) +
          (\<Sum>i<length ds. idx (Suc i) * stride (drop (Suc i) (d # ds)))"
    by (rule sum.lessThan_Suc_shift)
  then have "(\<Sum>i<length (d # ds). idx i * stride (drop i (d # ds))) =
          idx 0 * stride (d # ds) + (\<Sum>i<length ds. idx (Suc i) * stride (drop i ds))"
    by (simp del: sum.lessThan_Suc)
  with head tl vs show ?case by (simp del: sum.lessThan_Suc)
qed

lemma demo_index_2d: "index_impl [Uniform demo_dim, General demo_dim1] [Fin 1, Fin 1] = Inr 10"
  by (simp add: demo_dim_index demo_dim1_index demo_nbins extent_def)

lemma demo_size_2d: "size_impl [Uniform demo_dim, General demo_dim1] = 52"
  by (simp add: demo_nbins extent_def)


lemma size_impl_of_nat:
  "size_impl ds = word_of_nat (prod_list (map (\<lambda>d. unat (nbins d)) ds))"
  by (induction ds) (simp_all add: extent_def)

lemma unat_size_impl:
  "unat (size_impl ds) = prod_list (map (\<lambda>d. unat (nbins d)) ds) mod 2 ^ 64"
  by (simp add: size_impl_of_nat unat_of_nat)

lemma unat_stride_drop:
  assumes "i < length ds"
  shows "unat (stride (drop i ds)) =
           prod_list (map (\<lambda>d. unat (nbins d)) (drop (Suc i) ds)) mod 2 ^ 64"
proof -
  from assms have "drop i ds = ds ! i # drop (Suc i) ds"
    by (simp add: Cons_nth_drop_Suc)
  then show ?thesis by (simp add: unat_size_impl)
qed

lemma unat_index_impl:
  assumes "length vs = length ds"
    and "\<forall>i<length ds. dim_index (ds ! i) (vs ! i) = Inr (idx i)"
  shows "\<exists>off. index_impl ds vs = Inr off \<and>
           unat off =
             (\<Sum>i<length ds. unat (idx i) *
                prod_list (map (\<lambda>d. unat (nbins d)) (drop (Suc i) ds))) mod 2 ^ 64"
proof -
  let ?P = "\<lambda>i. prod_list (map (\<lambda>d. unat (nbins d)) (drop (Suc i) ds))"
  have st: "stride (drop i ds) = word_of_nat (?P i)" if "i < length ds" for i
  proof -
    from that have "drop i ds = ds ! i # drop (Suc i) ds"
      by (simp add: Cons_nth_drop_Suc)
    then show ?thesis by (simp add: size_impl_of_nat)
  qed
  have "index_impl ds vs = Inr (\<Sum>i<length ds. idx i * stride (drop i ds))"
    by (rule index_impl_sum [OF assms])
  moreover have "(\<Sum>i<length ds. idx i * stride (drop i ds)) =
      (\<Sum>i<length ds. word_of_nat (unat (idx i) * ?P i))"
    by (rule sum.cong) (simp_all add: st)
  moreover have "\<dots> = word_of_nat (\<Sum>i<length ds. unat (idx i) * ?P i)"
    by simp
  ultimately have e: "index_impl ds vs = Inr (word_of_nat (\<Sum>i<length ds. unat (idx i) * ?P i))"
    by (simp only:)
  have "unat (word_of_nat (\<Sum>i<length ds. unat (idx i) * ?P i) :: size_t) =
      (\<Sum>i<length ds. unat (idx i) * ?P i) mod 2 ^ 64"
    by (simp add: unat_of_nat del: of_nat_sum of_nat_mult)
  with e show ?thesis by blast
qed

text \<open>
  Claim C6, as the code has it. For every histogram over an ordered list of schemes,
  \<^verbatim>\<open>size()\<close> is the product of the bin counts of all dimensions modulo \<open>2^64\<close>; the stride of
  dimension \<open>i\<close> is the product of the bin counts of the dimensions after \<open>i\<close> modulo \<open>2^64\<close>
  (row-major: the last dimension varies fastest); and the flat offset of a coordinate
  tuple is, modulo \<open>2^64\<close>, the sum over the dimensions of the index in the dimension
  times the product of the bin counts of the dimensions after it. Where the product or
  the sum is below \<open>2^64\<close>, the size, the stride or the offset is that number itself.
\<close>

theorem size_stride_index:
  "unat (size_impl ds) = prod_list (map (\<lambda>d. unat (nbins d)) ds) mod 2 ^ 64 \<and>
   (prod_list (map (\<lambda>d. unat (nbins d)) ds) < 2 ^ 64 \<longrightarrow>
      unat (size_impl ds) = prod_list (map (\<lambda>d. unat (nbins d)) ds)) \<and>
   (\<forall>i<length ds.
      unat (stride (drop i ds)) =
        prod_list (map (\<lambda>d. unat (nbins d)) (drop (Suc i) ds)) mod 2 ^ 64 \<and>
      (prod_list (map (\<lambda>d. unat (nbins d)) (drop (Suc i) ds)) < 2 ^ 64 \<longrightarrow>
         unat (stride (drop i ds)) =
           prod_list (map (\<lambda>d. unat (nbins d)) (drop (Suc i) ds)))) \<and>
   (length vs = length ds \<and> (\<forall>i<length ds. dim_index (ds ! i) (vs ! i) = Inr (idx i)) \<longrightarrow>
      (\<exists>off. index_impl ds vs = Inr off \<and>
         off = (\<Sum>i<length ds. idx i * stride (drop i ds)) \<and>
         unat off =
           (\<Sum>i<length ds. unat (idx i) *
              prod_list (map (\<lambda>d. unat (nbins d)) (drop (Suc i) ds))) mod 2 ^ 64 \<and>
         ((\<Sum>i<length ds. unat (idx i) *
              prod_list (map (\<lambda>d. unat (nbins d)) (drop (Suc i) ds))) < 2 ^ 64 \<longrightarrow>
            unat off =
              (\<Sum>i<length ds. unat (idx i) *
                 prod_list (map (\<lambda>d. unat (nbins d)) (drop (Suc i) ds))))))"
proof (intro conjI allI impI)
  show "unat (size_impl ds) = prod_list (map (\<lambda>d. unat (nbins d)) ds) mod 2 ^ 64"
    by (rule unat_size_impl)
next
  assume "prod_list (map (\<lambda>d. unat (nbins d)) ds) < 2 ^ 64"
  then show "unat (size_impl ds) = prod_list (map (\<lambda>d. unat (nbins d)) ds)"
    by (simp add: unat_size_impl)
next
  fix i assume "i < length ds"
  then show "unat (stride (drop i ds)) =
      prod_list (map (\<lambda>d. unat (nbins d)) (drop (Suc i) ds)) mod 2 ^ 64"
    by (rule unat_stride_drop)
next
  fix i assume "i < length ds"
    and "prod_list (map (\<lambda>d. unat (nbins d)) (drop (Suc i) ds)) < 2 ^ 64"
  then show "unat (stride (drop i ds)) =
      prod_list (map (\<lambda>d. unat (nbins d)) (drop (Suc i) ds))"
    by (simp add: unat_stride_drop)
next
  assume a: "length vs = length ds \<and>
    (\<forall>i<length ds. dim_index (ds ! i) (vs ! i) = Inr (idx i))"
  let ?S = "\<Sum>i<length ds. unat (idx i) *
              prod_list (map (\<lambda>d. unat (nbins d)) (drop (Suc i) ds))"
  from a have len: "length vs = length ds"
    and each: "\<forall>i<length ds. dim_index (ds ! i) (vs ! i) = Inr (idx i)"
    by blast+
  from unat_index_impl [OF len each] obtain off where
    off: "index_impl ds vs = Inr off" "unat off = ?S mod 2 ^ 64"
    by blast
  have "index_impl ds vs = Inr (\<Sum>i<length ds. idx i * stride (drop i ds))"
    by (rule index_impl_sum [OF len each])
  with off(1) have eq: "off = (\<Sum>i<length ds. idx i * stride (drop i ds))"
    by simp
  have "?S < 2 ^ 64 \<longrightarrow> unat off = ?S"
    using off(2) by simp
  with off eq show "\<exists>off. index_impl ds vs = Inr off \<and>
         off = (\<Sum>i<length ds. idx i * stride (drop i ds)) \<and>
         unat off = ?S mod 2 ^ 64 \<and> (?S < 2 ^ 64 \<longrightarrow> unat off = ?S)"
    by blast
qed

theorem size_stride_index_witness:
  "unat (size_impl [Uniform demo_dim, General demo_dim1]) = 52 \<and>
   unat (stride (drop 0 [Uniform demo_dim, General demo_dim1])) = 4 \<and>
   unat (stride (drop 1 [Uniform demo_dim, General demo_dim1])) = 1 \<and>
   (\<exists>off. index_impl [Uniform demo_dim, General demo_dim1] [Fin 1, Fin 1] = Inr off \<and>
      unat off = 10)"
proof -
  let ?ds = "[Uniform demo_dim, General demo_dim1]"
  let ?vs = "[Fin 1, Fin 1]"
  let ?n = "\<lambda>d. unat (nbins d)"
  let ?S = "\<Sum>i<length ?ds. unat ((\<lambda>i. 2 :: size_t) i) * prod_list (map ?n (drop (Suc i) ?ds))"
  note t = size_stride_index [of ?ds ?vs "\<lambda>i. 2"]
  have len: "length ?vs = length ?ds" by simp
  have idx: "\<forall>i<length ?ds. dim_index (?ds ! i) (?vs ! i) = Inr ((\<lambda>i. 2) i)"
    by (simp add: less_Suc_eq demo_dim_index demo_dim1_index)
  have p: "prod_list (map ?n ?ds) = 52" by (simp add: demo_nbins)
  have p0: "prod_list (map ?n (drop (Suc 0) ?ds)) = 4" by (simp add: demo_nbins)
  have p1: "prod_list (map ?n (drop (Suc 1) ?ds)) = 1" by simp
  have s: "?S = 10" by (simp add: demo_nbins)
  have "prod_list (map ?n ?ds) < 2 ^ 64" unfolding p by simp
  with t have "unat (size_impl ?ds) = prod_list (map ?n ?ds)" by blast
  then have a: "unat (size_impl ?ds) = 52" unfolding p .
  note st = t [THEN conjunct2, THEN conjunct2, THEN conjunct1, rule_format]
  have "prod_list (map ?n (drop (Suc 0) ?ds)) < 2 ^ 64" unfolding p0 by simp
  moreover have "0 < length ?ds" by simp
  ultimately have "unat (stride (drop 0 ?ds)) = prod_list (map ?n (drop (Suc 0) ?ds))"
    using st [of 0] by blast
  then have b: "unat (stride (drop 0 ?ds)) = 4" unfolding p0 .
  have "prod_list (map ?n (drop (Suc 1) ?ds)) < 2 ^ 64" unfolding p1 by simp
  moreover have "1 < length ?ds" by simp
  ultimately have "unat (stride (drop 1 ?ds)) = prod_list (map ?n (drop (Suc 1) ?ds))"
    using st [of 1] by blast
  then have c: "unat (stride (drop 1 ?ds)) = 1" unfolding p1 .
  have "?S < 2 ^ 64" unfolding s by simp
  with t len idx obtain off where "index_impl ?ds ?vs = Inr off" "unat off = ?S"
    by blast
  then have d: "\<exists>off. index_impl ?ds ?vs = Inr off \<and> unat off = 10"
    unfolding s by blast
  from a b c d show ?thesis by blast
qed

text \<open>
  Claim C6, as stated, fails where the product is not below \<open>2^64\<close>. Three equispaced
  schemes with the requested bin counts \<open>2^22 - 2\<close>, \<open>2^21 - 2\<close> and \<open>2^21 - 2\<close> have \<open>2^22\<close>,
  \<open>2^21\<close> and \<open>2^21\<close> bins; the product of the bin counts is \<open>2^64\<close>, and \<^verbatim>\<open>size()\<close> is 0.
\<close>

theorem size_counterexample:
  "nbins (Uniform (uniform_ctor identity (Fin 0) (Fin 1) 4194302 [])) = 4194304 \<and>
   nbins (Uniform (uniform_ctor identity (Fin 0) (Fin 1) 2097150 [])) = 2097152 \<and>
   prod_list (map (\<lambda>d. unat (nbins d))
     [Uniform (uniform_ctor identity (Fin 0) (Fin 1) 4194302 []),
      Uniform (uniform_ctor identity (Fin 0) (Fin 1) 2097150 []),
      Uniform (uniform_ctor identity (Fin 0) (Fin 1) 2097150 [])]) = 18446744073709551616 \<and>
   size_impl
     [Uniform (uniform_ctor identity (Fin 0) (Fin 1) 4194302 []),
      Uniform (uniform_ctor identity (Fin 0) (Fin 1) 2097150 []),
      Uniform (uniform_ctor identity (Fin 0) (Fin 1) 2097150 [])] = 0 \<and>
   unat (size_impl
     [Uniform (uniform_ctor identity (Fin 0) (Fin 1) 4194302 []),
      Uniform (uniform_ctor identity (Fin 0) (Fin 1) 2097150 []),
      Uniform (uniform_ctor identity (Fin 0) (Fin 1) 2097150 [])]) = 0"
  by (simp add: uniform_nbins_def uniform_ctor_fields extent_def)

section \<open>Filling\<close>

lemma histogram_ctor_allocated: "allocated (histogram_ctor ds t)"
  by (simp add: allocated_def histogram_ctor_def)

lemma fill_with_weight_allocated:
  "allocated h \<Longrightarrow> allocated (snd (fill_with_weight h w vs))"
  by (auto simp: fill_with_weight_def allocated_def Let_def split: sum.splits)

text \<open>A call whose offset is below \<^verbatim>\<open>size()\<close> returns true; it adds the weight to the bin
  at the offset, the squared weight to the same bin of the other array, and one to the
  number of entries.\<close>

lemma fill_with_weight_in_range:
  assumes "allocated h" and "length vs = length (dims h)" and "valid vs"
    and "index_impl (dims h) vs = Inr off" and "off < size_impl (dims h)"
  shows "fill_with_weight h w vs =
    (Inr True,
     h\<lparr>h_bincontent := (h_bincontent h)[unat off := dadd (h_bincontent h ! unat off) w],
       h_squaredweights :=
         (h_squaredweights h)[unat off := dadd (h_squaredweights h ! unat off) (dmul w w)],
       h_n_entries := h_n_entries h + 1\<rparr>)"
proof -
  have "unat off < unat (size_impl (dims h))"
    using assms(5) by (simp add: word_less_nat_alt)
  with assms(1) have "unat off < length (h_bincontent h)" "unat off < length (h_squaredweights h)"
    by (simp_all add: allocated_def)
  with assms(2-4) show ?thesis
    by (simp add: fill_with_weight_def Let_def)
qed

lemma fill_with_weight_out_of_range:
  assumes "allocated h" and "length vs = length (dims h)" and "valid vs"
    and "index_impl (dims h) vs = Inr off" and "\<not> off < size_impl (dims h)"
  shows "fill_with_weight h w vs = (Inl OutOfRange, h)"
proof -
  have "\<not> unat off < unat (size_impl (dims h))"
    using assms(5) by (simp add: word_less_nat_alt)
  with assms(1) have "length (h_bincontent h) \<le> unat off"
    by (simp add: allocated_def)
  with assms(2-4) show ?thesis
    by (simp add: fill_with_weight_def Let_def)
qed

subsection \<open>Coordinates that are not numbers\<close>

text \<open>
  Claim C7. For every histogram and every coordinate tuple of the right arity with a NaN
  among the coordinates, \<^verbatim>\<open>fill\<close> and \<^verbatim>\<open>fill_with_weight\<close> return false, throw nothing, and
  leave the whole state as it was: the number of entries and both arrays are unchanged.
\<close>

theorem fill_nan_rejected:
  assumes "length vs = length (dims h)" and "\<exists>v\<in>set vs. isnan v"
  shows "fill_with_weight h w vs = (Inr False, h) \<and> fill h vs = (Inr False, h) \<and>
         n_entries (snd (fill_with_weight h w vs)) = n_entries h \<and>
         h_bincontent (snd (fill_with_weight h w vs)) = h_bincontent h \<and>
         h_squaredweights (snd (fill_with_weight h w vs)) = h_squaredweights h"
proof -
  from assms(2) have "\<not> valid vs" by (simp add: valid_iff)
  with assms(1) have "fill_with_weight h w' vs = (Inr False, h)" for w'
    by (simp add: fill_with_weight_def)
  then show ?thesis by (simp add: fill_def)
qed

theorem fill_nan_rejected_witness:
  "fill_with_weight (histogram_ctor [Uniform demo_dim, General demo_dim1] []) (Fin 2) [Fin 1, NaN] =
     (Inr False, histogram_ctor [Uniform demo_dim, General demo_dim1] []) \<and>
   fill (histogram_ctor [Uniform demo_dim, General demo_dim1] []) [Fin 1, NaN] =
     (Inr False, histogram_ctor [Uniform demo_dim, General demo_dim1] [])"
proof -
  let ?h = "histogram_ctor [Uniform demo_dim, General demo_dim1] []"
  have len: "length [Fin 1, NaN] = length (dims ?h)"
    by (simp add: histogram_ctor_def)
  have nan: "\<exists>v\<in>set [Fin 1, NaN]. isnan v"
    by (simp add: isnan_def)
  from fill_nan_rejected [OF len nan, of "Fin 2"] show ?thesis by blast
qed

subsection \<open>The effect of a fill\<close>

text \<open>
  Claim C8, as the code has it. For every histogram, every weight \<open>w\<close> and every
  coordinate tuple without a NaN whose offset \<^verbatim>\<open>index(coords)\<close> is below \<^verbatim>\<open>size()\<close>, one call
  of \<^verbatim>\<open>fill_with_weight\<close> returns true, adds one to the number of entries, adds \<open>w\<close> to the
  bin at the offset and \<open>w * w\<close> to the same bin of the squared weights, and leaves every
  other bin of both arrays, the shape, the edges, the labels and the title as they were.
  When the offset is not below \<^verbatim>\<open>size()\<close>, the checked access throws and nothing changes.
  The histogram holds the arrays its constructor allocated, as every histogram does
  (lemmas \<open>histogram_ctor_allocated\<close> and \<open>fill_with_weight_allocated\<close>).
\<close>

theorem fill_with_weight_frame:
  assumes "allocated h" and "length vs = length (dims h)" and "\<forall>c\<in>set vs. \<not> isnan c"
    and "index_impl (dims h) vs = Inr off"
  shows "(off < size_impl (dims h) \<longrightarrow>
    (\<exists>h'. fill_with_weight h w vs = (Inr True, h') \<and>
      n_entries h' = n_entries h + 1 \<and>
      h_bincontent h' ! unat off = dadd (h_bincontent h ! unat off) w \<and>
      h_squaredweights h' ! unat off = dadd (h_squaredweights h ! unat off) (dmul w w) \<and>
      (\<forall>i. i \<noteq> unat off \<longrightarrow>
         h_bincontent h' ! i = h_bincontent h ! i \<and>
         h_squaredweights h' ! i = h_squaredweights h ! i) \<and>
      length (h_bincontent h') = length (h_bincontent h) \<and>
      length (h_squaredweights h') = length (h_squaredweights h) \<and>
      dims h' = dims h \<and> shape h' = shape h \<and> binedges h' = binedges h \<and>
      labels h' = labels h \<and> h_title h' = h_title h \<and> allocated h')) \<and>
    (\<not> off < size_impl (dims h) \<longrightarrow> fill_with_weight h w vs = (Inl OutOfRange, h))"
proof (intro conjI impI)
  have valid: "valid vs" using assms(3) by (simp add: valid_iff)
  {
    assume lt: "off < size_impl (dims h)"
    then have "unat off < unat (size_impl (dims h))"
      by (simp add: word_less_nat_alt)
    with assms(1) have in_range:
      "unat off < length (h_bincontent h)" "unat off < length (h_squaredweights h)"
      by (simp_all add: allocated_def)
    let ?h' = "h\<lparr>h_bincontent := (h_bincontent h)[unat off := dadd (h_bincontent h ! unat off) w],
         h_squaredweights :=
           (h_squaredweights h)[unat off := dadd (h_squaredweights h ! unat off) (dmul w w)],
         h_n_entries := h_n_entries h + 1\<rparr>"
    have "fill_with_weight h w vs = (Inr True, ?h')"
      by (rule fill_with_weight_in_range [OF assms(1,2) valid assms(4) lt])
    moreover have "allocated ?h'" using assms(1) by (simp add: allocated_def)
    ultimately show "\<exists>h'. fill_with_weight h w vs = (Inr True, h') \<and>
      n_entries h' = n_entries h + 1 \<and>
      h_bincontent h' ! unat off = dadd (h_bincontent h ! unat off) w \<and>
      h_squaredweights h' ! unat off = dadd (h_squaredweights h ! unat off) (dmul w w) \<and>
      (\<forall>i. i \<noteq> unat off \<longrightarrow>
         h_bincontent h' ! i = h_bincontent h ! i \<and>
         h_squaredweights h' ! i = h_squaredweights h ! i) \<and>
      length (h_bincontent h') = length (h_bincontent h) \<and>
      length (h_squaredweights h') = length (h_squaredweights h) \<and>
      dims h' = dims h \<and> shape h' = shape h \<and> binedges h' = binedges h \<and>
      labels h' = labels h \<and> h_title h' = h_title h \<and> allocated h'"
      using in_range
      by (intro exI [of _ ?h'])
        (simp add: n_entries_def shape_def binedges_def labels_def)
  }
  {
    assume "\<not> off < size_impl (dims h)"
    then show "fill_with_weight h w vs = (Inl OutOfRange, h)"
      by (rule fill_with_weight_out_of_range [OF assms(1,2) valid assms(4)])
  }
qed

theorem fill_with_weight_frame_witness:
  "\<exists>h'. fill_with_weight (histogram_ctor [Uniform demo_dim, General demo_dim1] ''hola'')
            (Fin 3) [Fin 1, Fin 1] = (Inr True, h') \<and>
     n_entries h' = 1 \<and>
     h_bincontent h' ! 10 = Fin 3 \<and> h_squaredweights h' ! 10 = Fin 9 \<and>
     h_bincontent h' ! 11 = Fin 0 \<and> h_squaredweights h' ! 11 = Fin 0 \<and>
     shape h' = [13, 4]"
proof -
  let ?ds = "[Uniform demo_dim, General demo_dim1]"
  let ?h = "histogram_ctor ?ds ''hola''"
  have dims: "dims ?h = ?ds" by (simp add: histogram_ctor_def)
  have a: "allocated ?h" by (rule histogram_ctor_allocated)
  have len: "length [Fin 1, Fin 1] = length (dims ?h)" by (simp add: dims)
  have nonan: "\<forall>c\<in>set [Fin 1, Fin 1]. \<not> isnan c" by (simp add: isnan_def)
  have idx: "index_impl (dims ?h) [Fin 1, Fin 1] = Inr 10"
    by (simp only: dims demo_index_2d)
  have sz: "size_impl (dims ?h) = 52" by (simp only: dims demo_size_2d)
  have lt: "(10 :: size_t) < size_impl (dims ?h)" unfolding sz by simp
  have old: "h_bincontent ?h ! 10 = Fin 0" "h_squaredweights ?h ! 10 = Fin 0"
    "h_bincontent ?h ! 11 = Fin 0" "h_squaredweights ?h ! 11 = Fin 0" "n_entries ?h = 0"
    "shape ?h = [13, 4]"
    by (simp_all add: histogram_ctor_def demo_size_2d n_entries_def shape_def
        extent_def demo_nbins)
  from fill_with_weight_frame [OF a len nonan idx, of "Fin 3"] lt
  obtain h' where h': "fill_with_weight ?h (Fin 3) [Fin 1, Fin 1] = (Inr True, h')"
    "n_entries h' = n_entries ?h + 1"
    "h_bincontent h' ! unat (10 :: size_t) = dadd (h_bincontent ?h ! unat (10 :: size_t)) (Fin 3)"
    "h_squaredweights h' ! unat (10 :: size_t) =
       dadd (h_squaredweights ?h ! unat (10 :: size_t)) (dmul (Fin 3) (Fin 3))"
    "\<forall>i. i \<noteq> unat (10 :: size_t) \<longrightarrow>
       h_bincontent h' ! i = h_bincontent ?h ! i \<and>
       h_squaredweights h' ! i = h_squaredweights ?h ! i"
    "shape h' = shape ?h"
    by blast
  from h'(5) have "h_bincontent h' ! 11 = h_bincontent ?h ! 11 \<and>
       h_squaredweights h' ! 11 = h_squaredweights ?h ! 11"
    by simp
  with h'(1-4,6) old show ?thesis
    by (intro exI [of _ h']) simp
qed

text \<open>
  Claim C8, as stated, fails where the offset is not below \<^verbatim>\<open>size()\<close>: the call throws and
  the number of entries stays 0. The equispaced scheme with the requested bin count
  \<open>2^64 - 1\<close> has one bin and gives its lower bound the index 1. On two non-equispaced
  dimensions with the edges 0, 1, 2, the coordinates \<open>(2.5, +inf)\<close> have the indices 3 and
  4 and the offset 16, the size of the arrays.
\<close>

theorem fill_with_weight_counterexample:
  "fill_with_weight
     (histogram_ctor [Uniform (uniform_ctor identity (Fin 0) (Fin 10) (- 1) [])] [])
     (Fin 2) [Fin 0] =
     (Inl OutOfRange,
      histogram_ctor [Uniform (uniform_ctor identity (Fin 0) (Fin 10) (- 1) [])] []) \<and>
   n_entries (histogram_ctor [Uniform (uniform_ctor identity (Fin 0) (Fin 10) (- 1) [])] []) = 0 \<and>
   size_impl [General demo_dim1, General demo_dim1] = 16 \<and>
   index_impl [General demo_dim1, General demo_dim1] [Fin (5 / 2), PInf] = Inr 16 \<and>
   fill_with_weight (histogram_ctor [General demo_dim1, General demo_dim1] []) (Fin 2)
     [Fin (5 / 2), PInf] =
     (Inl OutOfRange, histogram_ctor [General demo_dim1, General demo_dim1] [])"
proof -
  have i0: "uniform_index (uniform_ctor identity (Fin 0) (Fin 10) (- 1) []) (Fin 0) = Inr 1"
    by (simp add: uniform_index_def uniform_ctor_fields identity_def uniform_map_def
        uniform_imap_def dsub_def dge_def dle_def double_of_size_t_def truncated_def)
  have n0: "uniform_nbins (uniform_ctor identity (Fin 0) (Fin 10) (- 1) []) = 1"
    by (simp add: uniform_nbins_def uniform_ctor_fields)
  have g: "general_index demo_dim1 (Fin (5 / 2)) = Inr 3" "general_index demo_dim1 PInf = Inr 4"
    by (simp_all add: demo_dim1_def general_index_def upper_bound_def upper_bound_loop_step)
  show ?thesis
    by (simp add: i0 n0 g demo_nbins fill_with_weight_def histogram_ctor_def
        isnan_def extent_def n_entries_def)
qed

subsection \<open>The weight\<close>

text \<open>
  Claim C9, as the code has it. \<^verbatim>\<open>fill_with_weight\<close> never looks at its weight: whether the
  call returns, and what it returns, is the same for every weight. For every histogram and
  every coordinate tuple without a NaN whose offset is below \<^verbatim>\<open>size()\<close>, the call returns
  true and adds one to the number of entries for every weight \<open>w\<close>, a NaN and the
  infinities included, and adds \<open>w\<close> and \<open>w * w\<close> to the bin at the offset: after a NaN weight
  both sums of the bin are NaN, and after an infinite weight the sum of squared weights is
  plus infinity or a NaN.
\<close>

theorem fill_with_weight_unchecked_weight:
  "fst (fill_with_weight h w vs) = fst (fill_with_weight h w' vs) \<and>
   (allocated h \<and> length vs = length (dims h) \<and> (\<forall>c\<in>set vs. \<not> isnan c) \<and>
    index_impl (dims h) vs = Inr off \<and> off < size_impl (dims h) \<longrightarrow>
      fst (fill_with_weight h w vs) = Inr True \<and>
      n_entries (snd (fill_with_weight h w vs)) = n_entries h + 1 \<and>
      h_bincontent (snd (fill_with_weight h w vs)) ! unat off =
        dadd (h_bincontent h ! unat off) w \<and>
      h_squaredweights (snd (fill_with_weight h w vs)) ! unat off =
        dadd (h_squaredweights h ! unat off) (dmul w w) \<and>
      (isnan w \<longrightarrow>
         isnan (h_bincontent (snd (fill_with_weight h w vs)) ! unat off) \<and>
         isnan (h_squaredweights (snd (fill_with_weight h w vs)) ! unat off)) \<and>
      (w = PInf \<or> w = NInf \<longrightarrow>
         h_squaredweights (snd (fill_with_weight h w vs)) ! unat off = PInf \<or>
         isnan (h_squaredweights (snd (fill_with_weight h w vs)) ! unat off)))"
proof (intro conjI impI)
  show "fst (fill_with_weight h w vs) = fst (fill_with_weight h w' vs)"
    by (simp add: fill_with_weight_def Let_def split: sum.splits)
next
  assume a: "allocated h \<and> length vs = length (dims h) \<and> (\<forall>c\<in>set vs. \<not> isnan c) \<and>
    index_impl (dims h) vs = Inr off \<and> off < size_impl (dims h)"
  then have valid: "valid vs" by (simp add: valid_iff)
  from a have "unat off < unat (size_impl (dims h))"
    by (simp add: word_less_nat_alt)
  with a have in_range:
    "unat off < length (h_bincontent h)" "unat off < length (h_squaredweights h)"
    by (simp_all add: allocated_def)
  have eq: "fill_with_weight h w vs =
    (Inr True,
     h\<lparr>h_bincontent := (h_bincontent h)[unat off := dadd (h_bincontent h ! unat off) w],
       h_squaredweights :=
         (h_squaredweights h)[unat off := dadd (h_squaredweights h ! unat off) (dmul w w)],
       h_n_entries := h_n_entries h + 1\<rparr>)"
    using a valid by (intro fill_with_weight_in_range) simp_all
  show "fst (fill_with_weight h w vs) = Inr True"
    and "n_entries (snd (fill_with_weight h w vs)) = n_entries h + 1"
    and b: "h_bincontent (snd (fill_with_weight h w vs)) ! unat off =
        dadd (h_bincontent h ! unat off) w"
    and s: "h_squaredweights (snd (fill_with_weight h w vs)) ! unat off =
        dadd (h_squaredweights h ! unat off) (dmul w w)"
    using in_range by (simp_all add: eq n_entries_def)
  {
    assume "isnan w"
    then have w: "w = NaN" by (simp add: isnan_def)
    have "dadd x NaN = NaN" for x by (cases x) simp_all
    then show "isnan (h_bincontent (snd (fill_with_weight h w vs)) ! unat off)"
      and "isnan (h_squaredweights (snd (fill_with_weight h w vs)) ! unat off)"
      unfolding b s by (simp_all add: w isnan_def)
  }
  {
    assume "w = PInf \<or> w = NInf"
    then have "dmul w w = PInf" by auto
    moreover have "dadd x PInf = PInf \<or> dadd x PInf = NaN" for x by (cases x) simp_all
    ultimately show "h_squaredweights (snd (fill_with_weight h w vs)) ! unat off = PInf \<or>
         isnan (h_squaredweights (snd (fill_with_weight h w vs)) ! unat off)"
      unfolding s by (simp add: isnan_def)
  }
qed

theorem fill_with_weight_unchecked_weight_witness:
  "fst (fill_with_weight (histogram_ctor [Uniform demo_dim, General demo_dim1] []) NaN
          [Fin 1, Fin 1]) = Inr True \<and>
   n_entries (snd (fill_with_weight (histogram_ctor [Uniform demo_dim, General demo_dim1] []) NaN
          [Fin 1, Fin 1])) = 1 \<and>
   isnan (h_bincontent (snd (fill_with_weight
          (histogram_ctor [Uniform demo_dim, General demo_dim1] []) NaN [Fin 1, Fin 1])) ! 10) \<and>
   isnan (h_squaredweights (snd (fill_with_weight
          (histogram_ctor [Uniform demo_dim, General demo_dim1] []) NaN [Fin 1, Fin 1])) ! 10) \<and>
   fst (fill_with_weight (histogram_ctor [Uniform demo_dim, General demo_dim1] []) (Fin 1)
          [Fin 1, Fin 1]) = Inr True"
proof -
  let ?ds = "[Uniform demo_dim, General demo_dim1]"
  let ?h = "histogram_ctor ?ds []"
  let ?vs = "[Fin 1, Fin 1]"
  have dims: "dims ?h = ?ds" by (simp add: histogram_ctor_def)
  have a: "allocated ?h" by (rule histogram_ctor_allocated)
  have len: "length ?vs = length (dims ?h)" by (simp add: dims)
  have nonan: "\<forall>c\<in>set ?vs. \<not> isnan c" by (simp add: isnan_def)
  have idx: "index_impl (dims ?h) ?vs = Inr 10"
    by (simp only: dims demo_index_2d)
  have sz: "size_impl (dims ?h) = 52" by (simp only: dims demo_size_2d)
  have lt: "(10 :: size_t) < size_impl (dims ?h)" unfolding sz by simp
  have n0: "n_entries ?h = 0" by (simp add: histogram_ctor_def n_entries_def)
  have w: "isnan NaN" by (simp add: isnan_def)
  have u: "unat (10 :: size_t) = 10" by simp
  from fill_with_weight_unchecked_weight [of ?h NaN ?vs "Fin 1" 10] a len nonan idx lt w
  have "fst (fill_with_weight ?h NaN ?vs) = fst (fill_with_weight ?h (Fin 1) ?vs)"
    and "fst (fill_with_weight ?h NaN ?vs) = Inr True"
    and "n_entries (snd (fill_with_weight ?h NaN ?vs)) = n_entries ?h + 1"
    and "isnan (h_bincontent (snd (fill_with_weight ?h NaN ?vs)) ! unat (10 :: size_t))"
    and "isnan (h_squaredweights (snd (fill_with_weight ?h NaN ?vs)) ! unat (10 :: size_t))"
    by blast+
  then show ?thesis unfolding u n0 by simp
qed

text \<open>
  Claim C9, as stated, fails where the offset is not below \<^verbatim>\<open>size()\<close>: whatever the weight,
  the call throws and the number of entries stays 0. So it is on the equispaced scheme
  with the requested bin count \<open>2^64 - 1\<close>, at its lower bound, and on the non-equispaced
  scheme with the edges 0, 1, 2, at plus infinity.
\<close>

theorem unchecked_weight_counterexample:
  "fill_with_weight
     (histogram_ctor [Uniform (uniform_ctor identity (Fin 0) (Fin 10) (- 1) [])] [])
     NaN [Fin 0] =
     (Inl OutOfRange,
      histogram_ctor [Uniform (uniform_ctor identity (Fin 0) (Fin 10) (- 1) [])] []) \<and>
   fill_with_weight (histogram_ctor [General demo_dim1] []) PInf [PInf] =
     (Inl OutOfRange, histogram_ctor [General demo_dim1] []) \<and>
   fill_with_weight (histogram_ctor [General demo_dim1] []) (Fin 1) [PInf] =
     (Inl OutOfRange, histogram_ctor [General demo_dim1] []) \<and>
   n_entries (histogram_ctor [General demo_dim1] []) = 0"
proof -
  have i0: "uniform_index (uniform_ctor identity (Fin 0) (Fin 10) (- 1) []) (Fin 0) = Inr 1"
    by (simp add: uniform_index_def uniform_ctor_fields identity_def uniform_map_def
        uniform_imap_def dsub_def dge_def dle_def double_of_size_t_def truncated_def)
  have n0: "uniform_nbins (uniform_ctor identity (Fin 0) (Fin 10) (- 1) []) = 1"
    by (simp add: uniform_nbins_def uniform_ctor_fields)
  have g: "general_index demo_dim1 PInf = Inr 4"
    by (simp add: demo_dim1_def general_index_def upper_bound_def upper_bound_loop_step)
  show ?thesis
    by (simp add: i0 n0 g demo_nbins fill_with_weight_def histogram_ctor_def
        isnan_def extent_def n_entries_def)
qed

subsection \<open>Plus infinity on a non-equispaced dimension\<close>

text \<open>On a histogram over one non-equispaced scheme, whatever its edges, the offset of plus
  infinity is the size of the arrays.\<close>

lemma general_fill_PInf:
  assumes "general_ctor es nm = Inr g"
  shows "fill (histogram_ctor [General g] t) [PInf] =
           (Inl OutOfRange, histogram_ctor [General g] t)"
  by (simp add: fill_def fill_with_weight_def histogram_ctor_def isnan_def extent_def
      general_index_PInf [OF assms])

text \<open>
  Claim C2. For every histogram and every coordinate tuple of the right arity without a
  NaN, infinite coordinates included, \<^verbatim>\<open>fill\<close> and \<^verbatim>\<open>fill_with_weight\<close> return true, route
  each coordinate to the underflow or overflow bin of its dimension, and throw nothing.

  The code does not do this for plus infinity on a non-equispaced dimension. The
  histogram over the scheme with the edges 0, 1, 2 has four bins; \<^verbatim>\<open>fill\<close> of plus infinity
  passes \<^verbatim>\<open>valid\<close>, computes the offset 4, and \<^verbatim>\<open>bincontent_.at(4)\<close> throws
  \<^verbatim>\<open>std::out_of_range\<close>. In two dimensions the same index can stay below the size: the
  coordinates \<open>(0.5, +inf)\<close> are counted, but in the bin of \<open>(1.5, -inf)\<close>.
\<close>

theorem fill_plus_infinity_throws:
  "valid [PInf] \<and>
   size_impl [General demo_dim1] = 4 \<and>
   index_impl [General demo_dim1] [PInf] = Inr 4 \<and>
   fill (histogram_ctor [General demo_dim1] []) [PInf] =
     (Inl OutOfRange, histogram_ctor [General demo_dim1] []) \<and>
   fill_with_weight (histogram_ctor [General demo_dim1] []) (Fin 1) [PInf] =
     (Inl OutOfRange, histogram_ctor [General demo_dim1] []) \<and>
   index_impl [General demo_dim1, General demo_dim1] [Fin (1 / 2), PInf] = Inr 8 \<and>
   index_impl [General demo_dim1, General demo_dim1] [Fin (3 / 2), NInf] = Inr 8"
  by (simp add: fill_def fill_with_weight_def histogram_ctor_def isnan_def extent_def
      demo_dim1_def general_nbins_def vsize_def
      general_index_def upper_bound_def upper_bound_loop_step)

subsection \<open>Histograms of equispaced schemes\<close>




end
